theory Spec2Isabelle
  imports Main "HOL-Library.Word"
begin

unbundle bit_operations_syntax

section \<open>Bytes, Python integers and the struct module\<close>

text \<open>
  A Python \<open>bytes\<close> or \<open>bytearray\<close> object is a list of 8-bit words. Python integers are
  unbounded, so every header and TLV field is an \<open>int\<close>; only \<open>struct.pack\<close> checks the
  range of a value, and raises \<open>struct.error\<close> outside it.
\<close>

type_synonym byte = "8 word"
type_synonym bytes = "byte list"

datatype error =
    KeyError
  | AttributeError
  | StructError
  | UnicodeDecodeError
  | UnicodeEncodeError
  | UnboundLocalError
  | TockLoaderException

text \<open>\<open>roundup(x, to)\<close>, on Python integers (\<open>%\<close> rounds towards minus infinity, as \<open>mod\<close>).\<close>

definition roundup :: "int \<Rightarrow> int \<Rightarrow> int" where
  "roundup x to = (if x mod to = 0 then x else x + to - x mod to)"

text \<open>The little-endian unsigned value of a run of bytes, and its inverse on \<open>n\<close> bytes.\<close>

fun le_int :: "bytes \<Rightarrow> int" where
  "le_int [] = 0"
| "le_int (b # bs) = uint b + 256 * le_int bs"

fun le_bytes :: "nat \<Rightarrow> int \<Rightarrow> bytes" where
  "le_bytes 0 v = []"
| "le_bytes (Suc n) v = word_of_int v # le_bytes n (v div 256)"

text \<open>
  \<open>struct.unpack\<close> and \<open>struct.pack\<close> with a format that starts with \<open><\<close> (little-endian,
  no alignment). A format is the list of its field widths in bytes: \<open>H\<close> is 2 and \<open>I\<close> is 4,
  so \<open>"<HHI"\<close> is \<open>[2, 2, 4]\<close>. Unpacking raises unless the buffer has exactly the size of
  the format; packing raises unless every value fits its unsigned field.
\<close>

fun unpack_fields :: "nat list \<Rightarrow> bytes \<Rightarrow> int list" where
  "unpack_fields [] buffer = []"
| "unpack_fields (w # ws) buffer = le_int (take w buffer) # unpack_fields ws (drop w buffer)"

definition struct_unpack :: "nat list \<Rightarrow> bytes \<Rightarrow> error + int list" where
  "struct_unpack fmt buffer =
     (if length buffer = sum_list fmt then Inr (unpack_fields fmt buffer) else Inl StructError)"

fun struct_pack :: "nat list \<Rightarrow> int list \<Rightarrow> error + bytes" where
  "struct_pack [] [] = Inr []"
| "struct_pack (w # ws) (v # vs) =
     (if 0 \<le> v \<and> v < 256 ^ w
      then (case struct_pack ws vs of Inl e \<Rightarrow> Inl e | Inr out \<Rightarrow> Inr (le_bytes w v @ out))
      else Inl StructError)"
| "struct_pack _ _ = Inl StructError"

section \<open>The checksum\<close>

text \<open>
  \<open>TBFHeader._checksum\<close>: the buffer is padded with zero bytes to a multiple of four, then the
  little-endian 32-bit words are folded with exclusive or. After the padding every slice
  \<open>buffer[i : i + 4]\<close> of the loop has four bytes, so its \<open>struct.unpack("<I", ...)\<close> is \<open>le_int\<close>
  of the slice. When the argument is a \<open>bytearray\<close>, \<open>buffer += ...\<close> extends the caller's
  object in place: \<open>checksum_pad\<close> is the buffer as the caller sees it afterwards.
\<close>

definition checksum_pad :: "bytes \<Rightarrow> bytes" where
  "checksum_pad buffer =
     (let padding = length buffer mod 4
      in if padding \<noteq> 0 then buffer @ replicate (4 - padding) 0 else buffer)"

function checksum_loop :: "nat \<Rightarrow> bytes \<Rightarrow> int \<Rightarrow> int" where
  "checksum_loop i buffer checksum =
     (if i < length buffer
      then checksum_loop (i + 4) buffer (checksum XOR le_int (take 4 (drop i buffer)))
      else checksum)"
  by pat_completeness auto
termination
  by (relation "measure (\<lambda>(i, buffer, checksum). length buffer - i)") auto

declare checksum_loop.simps [simp del]

definition checksum_of :: "bytes \<Rightarrow> int" where
  "checksum_of buffer = checksum_loop 0 (checksum_pad buffer) 0"

section \<open>UTF-8\<close>

text \<open>
  A Python \<open>str\<close> is the list of its code points. \<open>bytes.decode("utf-8")\<close> is strict: it
  raises \<open>UnicodeDecodeError\<close> on a stray or missing continuation byte, on an overlong form, on
  a surrogate and beyond \<open>U+10FFFF\<close>. \<open>str.encode("utf-8")\<close> raises \<open>UnicodeEncodeError\<close> on
  a surrogate. Both work on the numeric values of the bytes.
\<close>

definition cont :: "nat \<Rightarrow> bool" where
  "cont b = (128 \<le> b \<and> b < 192)"

fun utf8_decode :: "nat list \<Rightarrow> nat list option" where
  "utf8_decode [] = Some []"
| "utf8_decode (b0 # bs) =
     (if b0 < 128 then map_option (Cons b0) (utf8_decode bs)
      else if 194 \<le> b0 \<and> b0 < 224 then
        (case bs of
           b1 # r \<Rightarrow>
             if cont b1
             then map_option (Cons ((b0 - 192) * 64 + (b1 - 128))) (utf8_decode r)
             else None
         | _ \<Rightarrow> None)
      else if 224 \<le> b0 \<and> b0 < 240 then
        (case bs of
           b1 # b2 # r \<Rightarrow>
             let cp = (b0 - 224) * 4096 + (b1 - 128) * 64 + (b2 - 128)
             in if cont b1 \<and> cont b2 \<and> 2048 \<le> cp \<and> \<not> (55296 \<le> cp \<and> cp < 57344)
                then map_option (Cons cp) (utf8_decode r)
                else None
         | _ \<Rightarrow> None)
      else if 240 \<le> b0 \<and> b0 < 245 then
        (case bs of
           b1 # b2 # b3 # r \<Rightarrow>
             let cp = (b0 - 240) * 262144 + (b1 - 128) * 4096 + (b2 - 128) * 64 + (b3 - 128)
             in if cont b1 \<and> cont b2 \<and> cont b3 \<and> 65536 \<le> cp \<and> cp < 1114112
                then map_option (Cons cp) (utf8_decode r)
                else None
         | _ \<Rightarrow> None)
      else None)"

fun utf8_encode :: "nat list \<Rightarrow> nat list option" where
  "utf8_encode [] = Some []"
| "utf8_encode (cp # cps) =
     (if cp < 128 then map_option (append [cp]) (utf8_encode cps)
      else if cp < 2048 then
        map_option (append [192 + cp div 64, 128 + cp mod 64]) (utf8_encode cps)
      else if cp < 65536 then
        (if 55296 \<le> cp \<and> cp < 57344 then None
         else map_option
                (append [224 + cp div 4096, 128 + (cp div 64) mod 64, 128 + cp mod 64])
                (utf8_encode cps))
      else if cp < 1114112 then
        map_option
          (append [240 + cp div 262144, 128 + (cp div 4096) mod 64,
                   128 + (cp div 64) mod 64, 128 + cp mod 64])
          (utf8_encode cps)
      else None)"

definition bytes_decode :: "bytes \<Rightarrow> error + nat list" where
  "bytes_decode buffer =
     (case utf8_decode (map unat buffer) of
        None \<Rightarrow> Inl UnicodeDecodeError
      | Some s \<Rightarrow> Inr s)"

definition str_encode :: "nat list \<Rightarrow> error + bytes" where
  "str_encode s =
     (case utf8_encode s of
        None \<Rightarrow> Inl UnicodeEncodeError
      | Some ns \<Rightarrow> Inr (map of_nat ns))"

section \<open>The TLV records of the header\<close>

text \<open>
  Each TLV class is a constructor. A constructor of the source that finds a buffer of the
  wrong length leaves \<open>valid\<close> false and sets none of the field attributes: the fields are an
  \<open>option\<close>, and reading them from \<open>None\<close> is Python's \<open>AttributeError\<close>. Where a
  constructor has just compared the length of the buffer with the size of the format, its
  \<open>struct.unpack\<close> cannot raise and is written \<open>unpack_fields\<close>.
\<close>

record main_fields =
  init_fn_offset :: int
  protected_size :: int
  minimum_ram_size :: int

record program_fields = main_fields +
  binary_end_offset :: int
  app_version :: int

record pic_option_1_fields =
  text_offset :: int
  data_offset :: int
  data_size :: int
  bss_memory_offset :: int
  bss_size :: int
  relocation_data_offset :: int
  relocation_data_size :: int
  got_offset :: int
  got_size :: int
  minimum_stack_length :: int

record fixed_address_fields =
  fixed_address_ram :: int
  fixed_address_flash :: int

record kernel_version_fields =
  kernel_major :: int
  kernel_minor :: int

datatype tlv =
    TBFTLVUnknown int bytes
  | TBFTLVMain bool "main_fields option"
  | TBFTLVProgram bool "program_fields option"
  | TBFTLVWriteableFlashRegions bool "(int \<times> int) list option"
  | TBFTLVPackageName bool "nat list"
  | TBFTLVPicOption1 bool "pic_option_1_fields option"
  | TBFTLVFixedAddress bool "fixed_address_fields option"
  | TBFTLVKernelVersion bool "kernel_version_fields option"

definition HEADER_TYPE_MAIN :: int where "HEADER_TYPE_MAIN = 1"
definition HEADER_TYPE_WRITEABLE_FLASH_REGIONS :: int where
  "HEADER_TYPE_WRITEABLE_FLASH_REGIONS = 2"
definition HEADER_TYPE_PACKAGE_NAME :: int where "HEADER_TYPE_PACKAGE_NAME = 3"
definition HEADER_TYPE_PIC_OPTION_1 :: int where "HEADER_TYPE_PIC_OPTION_1 = 4"
definition HEADER_TYPE_FIXED_ADDRESSES :: int where "HEADER_TYPE_FIXED_ADDRESSES = 5"
definition HEADER_TYPE_KERNEL_VERSION :: int where "HEADER_TYPE_KERNEL_VERSION = 8"
definition HEADER_TYPE_PROGRAM :: int where "HEADER_TYPE_PROGRAM = 9"

lemmas HEADER_TYPE_defs =
  HEADER_TYPE_MAIN_def HEADER_TYPE_WRITEABLE_FLASH_REGIONS_def HEADER_TYPE_PACKAGE_NAME_def
  HEADER_TYPE_PIC_OPTION_1_def HEADER_TYPE_FIXED_ADDRESSES_def HEADER_TYPE_KERNEL_VERSION_def
  HEADER_TYPE_PROGRAM_def

fun tlv_valid :: "tlv \<Rightarrow> error + bool" where
  "tlv_valid (TBFTLVUnknown t b) = Inl AttributeError"
| "tlv_valid (TBFTLVMain v f) = Inr v"
| "tlv_valid (TBFTLVProgram v f) = Inr v"
| "tlv_valid (TBFTLVWriteableFlashRegions v f) = Inr v"
| "tlv_valid (TBFTLVPackageName v s) = Inr v"
| "tlv_valid (TBFTLVPicOption1 v f) = Inr v"
| "tlv_valid (TBFTLVFixedAddress v f) = Inr v"
| "tlv_valid (TBFTLVKernelVersion v f) = Inr v"

fun get_tlvid :: "tlv \<Rightarrow> int" where
  "get_tlvid (TBFTLVUnknown t b) = t"
| "get_tlvid (TBFTLVMain v f) = 1"
| "get_tlvid (TBFTLVProgram v f) = 9"
| "get_tlvid (TBFTLVWriteableFlashRegions v f) = 2"
| "get_tlvid (TBFTLVPackageName v s) = 3"
| "get_tlvid (TBFTLVPicOption1 v f) = 4"
| "get_tlvid (TBFTLVFixedAddress v f) = 5"
| "get_tlvid (TBFTLVKernelVersion v f) = 8"

subsection \<open>Constructors\<close>

definition TBFTLVMain_init :: "bytes \<Rightarrow> tlv" where
  "TBFTLVMain_init buf =
     (if length buf = 12 then
        (let base = unpack_fields [4, 4, 4] buf
         in
             TBFTLVMain True
               (Some \<lparr>init_fn_offset = base ! 0, protected_size = base ! 1,
                      minimum_ram_size = base ! 2\<rparr>))
      else TBFTLVMain False None)"

definition TBFTLVProgram_init :: "bytes \<Rightarrow> tlv" where
  "TBFTLVProgram_init buf =
     (if length buf = 20 then
        (let base = unpack_fields [4, 4, 4, 4, 4] buf
         in
             TBFTLVProgram True
               (Some \<lparr>init_fn_offset = base ! 0, protected_size = base ! 1,
                      minimum_ram_size = base ! 2, binary_end_offset = base ! 3,
                      app_version = base ! 4\<rparr>))
      else TBFTLVProgram False None)"

text \<open>
  The loop of \<open>TBFTLVWriteableFlashRegions.__init__\<close> over \<open>range(0, int(len(buffer) / 8))\<close>;
  the float quotient is exact here, the length being a multiple of 8 (below \<open>2 ^ 53\<close>).
  No branch of this constructor assigns \<open>valid\<close> after its first line.
\<close>

fun wfr_loop :: "nat \<Rightarrow> bytes \<Rightarrow> (int \<times> int) list" where
  "wfr_loop 0 buf = []"
| "wfr_loop (Suc n) buf =
     wfr_loop n buf @
       [(le_int (take 4 (drop (n * 8) buf)), le_int (take 4 (drop (n * 8 + 4) buf)))]"

definition TBFTLVWriteableFlashRegions_init :: "bytes \<Rightarrow> tlv" where
  "TBFTLVWriteableFlashRegions_init buf =
     (if length buf mod 8 = 0
      then TBFTLVWriteableFlashRegions False (Some (wfr_loop (length buf div 8) buf))
      else TBFTLVWriteableFlashRegions False None)"

definition TBFTLVPackageName_init :: "bytes \<Rightarrow> error + tlv" where
  "TBFTLVPackageName_init buf =
     (case bytes_decode buf of
        Inl e \<Rightarrow> Inl e
      | Inr package_name \<Rightarrow> Inr (TBFTLVPackageName True package_name))"

definition TBFTLVPicOption1_init :: "bytes \<Rightarrow> tlv" where
  "TBFTLVPicOption1_init buf =
     (if length buf = 40 then
        (let base = unpack_fields [4, 4, 4, 4, 4, 4, 4, 4, 4, 4] buf
         in
             TBFTLVPicOption1 True
               (Some \<lparr>text_offset = base ! 0, data_offset = base ! 1, data_size = base ! 2,
                      bss_memory_offset = base ! 3, bss_size = base ! 4,
                      relocation_data_offset = base ! 5, relocation_data_size = base ! 6,
                      got_offset = base ! 7, got_size = base ! 8,
                      minimum_stack_length = base ! 9\<rparr>))
      else TBFTLVPicOption1 False None)"

definition TBFTLVFixedAddress_init :: "bytes \<Rightarrow> tlv" where
  "TBFTLVFixedAddress_init buf =
     (if length buf = 8 then
        (let base = unpack_fields [4, 4] buf
         in
             TBFTLVFixedAddress True
               (Some \<lparr>fixed_address_ram = base ! 0, fixed_address_flash = base ! 1\<rparr>))
      else TBFTLVFixedAddress False None)"

definition TBFTLVKernelVersion_init :: "bytes \<Rightarrow> tlv" where
  "TBFTLVKernelVersion_init buf =
     (if length buf = 4 then
        (let base = unpack_fields [2, 2] buf
         in
             TBFTLVKernelVersion True
               (Some \<lparr>kernel_major = base ! 0, kernel_minor = base ! 1\<rparr>))
      else TBFTLVKernelVersion False None)"

subsection \<open>Serialisation\<close>

fun wfr_pack :: "(int \<times> int) list \<Rightarrow> error + bytes" where
  "wfr_pack [] = Inr []"
| "wfr_pack (wfr # wfrs) =
     (case struct_pack [4, 4] [fst wfr, snd wfr] of
        Inl e \<Rightarrow> Inl e
      | Inr b \<Rightarrow> (case wfr_pack wfrs of Inl e \<Rightarrow> Inl e | Inr out \<Rightarrow> Inr (b @ out)))"

fun pack :: "tlv \<Rightarrow> error + bytes" where
  "pack (TBFTLVUnknown t b) =
     (case struct_pack [2, 2] [t, int (length b)] of
        Inl e \<Rightarrow> Inl e
      | Inr out0 \<Rightarrow>
          (let out = out0 @ b;
               padding = (4 - length out mod 4) mod 4
           in Inr (out @ replicate padding 0)))"
| "pack (TBFTLVMain v None) = Inl AttributeError"
| "pack (TBFTLVMain v (Some f)) =
     struct_pack [2, 2, 4, 4, 4]
       [1, 12, init_fn_offset f, protected_size f, minimum_ram_size f]"
| "pack (TBFTLVProgram v None) = Inl AttributeError"
| "pack (TBFTLVProgram v (Some f)) =
     struct_pack [2, 2, 4, 4, 4, 4, 4]
       [9, 20, init_fn_offset f, protected_size f, minimum_ram_size f,
        binary_end_offset f, app_version f]"
| "pack (TBFTLVWriteableFlashRegions v None) = Inl AttributeError"
| "pack (TBFTLVWriteableFlashRegions v (Some wfrs)) =
     (case struct_pack [2, 2] [2, int (length wfrs) * 8] of
        Inl e \<Rightarrow> Inl e
      | Inr out0 \<Rightarrow> (case wfr_pack wfrs of Inl e \<Rightarrow> Inl e | Inr out \<Rightarrow> Inr (out0 @ out)))"
| "pack (TBFTLVPackageName v package_name) =
     (case str_encode package_name of
        Inl e \<Rightarrow> Inl e
      | Inr encoded_name \<Rightarrow>
          (case struct_pack [2, 2] [3, int (length encoded_name)] of
             Inl e \<Rightarrow> Inl e
           | Inr out0 \<Rightarrow>
               (let padding_length =
                      roundup (int (length encoded_name)) 4 - int (length encoded_name)
                in if padding_length > 0
                   then Inr (out0 @ encoded_name @ replicate (nat padding_length) 0)
                   else Inr (out0 @ encoded_name))))"
| "pack (TBFTLVPicOption1 v None) = Inl AttributeError"
| "pack (TBFTLVPicOption1 v (Some f)) =
     struct_pack [2, 2, 4, 4, 4, 4, 4, 4, 4, 4, 4, 4]
       [4, 40, text_offset f, data_offset f, data_size f, bss_memory_offset f, bss_size f,
        relocation_data_offset f, relocation_data_size f, got_offset f, got_size f,
        minimum_stack_length f]"
| "pack (TBFTLVFixedAddress v None) = Inl AttributeError"
| "pack (TBFTLVFixedAddress v (Some f)) =
     struct_pack [2, 2, 4, 4] [5, 8, fixed_address_ram f, fixed_address_flash f]"
| "pack (TBFTLVKernelVersion v None) = Inl AttributeError"
| "pack (TBFTLVKernelVersion v (Some f)) =
     struct_pack [2, 2, 2, 2] [8, 4, kernel_major f, kernel_minor f]"

definition get_size :: "tlv \<Rightarrow> error + int" where
  "get_size t = (case pack t of Inl e \<Rightarrow> Inl e | Inr out \<Rightarrow> Inr (int (length out)))"

section \<open>The header\<close>

text \<open>
  The attributes of a \<open>TBFHeader\<close> object. \<open>version\<close> is assigned only once the buffer is seen
  to have two bytes, so it is an \<open>option\<close>: reading it from an object built from a shorter
  buffer raises \<open>AttributeError\<close>. \<open>fields_dict\<close> is the dictionary \<open>self.fields\<close> of the base fields.
\<close>

record TBFHeader =
  valid :: bool
  app :: bool
  modified :: bool
  fields_dict :: "string \<rightharpoonup> int"
  tlvs :: "tlv list"
  version :: "int option"

definition lookup :: "(string \<rightharpoonup> int) \<Rightarrow> string \<Rightarrow> error + int" where
  "lookup m k = (case m k of None \<Rightarrow> Inl KeyError | Some v \<Rightarrow> Inr v)"

fun lookups :: "(string \<rightharpoonup> int) \<Rightarrow> string list \<Rightarrow> error + int list" where
  "lookups m [] = Inr []"
| "lookups m (k # ks) =
     (case lookup m k of
        Inl e \<Rightarrow> Inl e
      | Inr v \<Rightarrow> (case lookups m ks of Inl e \<Rightarrow> Inl e | Inr vs \<Rightarrow> Inr (v # vs)))"

text \<open>\<open>struct.pack_into(fmt, buffer, offset, ...)\<close>: the packed bytes overwrite the buffer in place.\<close>

definition struct_pack_into :: "nat list \<Rightarrow> bytes \<Rightarrow> nat \<Rightarrow> int list \<Rightarrow> error + bytes" where
  "struct_pack_into fmt buf offset vals =
     (case struct_pack fmt vals of
        Inl e \<Rightarrow> Inl e
      | Inr p \<Rightarrow>
          if offset + length p \<le> length buf
          then Inr (take offset buf @ p @ drop (offset + length p) buf)
          else Inl StructError)"

subsection \<open>Parsing\<close>

text \<open>
  The \<open>if\<close>/\<open>elif\<close> chain in the body of the parse loop of \<open>TBFHeader.__init__\<close>, after the
  four bytes of the prefix have been taken off \<open>buffer\<close> and \<open>remaining\<close>. A branch whose
  guard fails appends nothing.
\<close>

definition parse_tlv :: "int \<Rightarrow> int \<Rightarrow> int \<Rightarrow> bytes \<Rightarrow> tlv list \<Rightarrow> error + tlv list" where
  "parse_tlv tipe len remaining buf ts =
     (if tipe = HEADER_TYPE_MAIN then
        (if remaining \<ge> 12 \<and> len = 12 then Inr (ts @ [TBFTLVMain_init (take 12 buf)])
         else Inr ts)
      else if tipe = HEADER_TYPE_PROGRAM then
        (if remaining \<ge> 20 \<and> len = 20 then Inr (ts @ [TBFTLVProgram_init (take 20 buf)])
         else Inr ts)
      else if tipe = HEADER_TYPE_WRITEABLE_FLASH_REGIONS then
        (if remaining \<ge> len
         then Inr (ts @ [TBFTLVWriteableFlashRegions_init (take (nat len) buf)])
         else Inr ts)
      else if tipe = HEADER_TYPE_PACKAGE_NAME then
        (if remaining \<ge> len then
           (case TBFTLVPackageName_init (take (nat len) buf) of
              Inl e \<Rightarrow> Inl e
            | Inr t \<Rightarrow> Inr (ts @ [t]))
         else Inr ts)
      else if tipe = HEADER_TYPE_PIC_OPTION_1 then
        (if remaining \<ge> 40 \<and> len = 40 then Inr (ts @ [TBFTLVPicOption1_init (take 40 buf)])
         else Inr ts)
      else if tipe = HEADER_TYPE_FIXED_ADDRESSES then
        (if remaining \<ge> 8 \<and> len = 8 then Inr (ts @ [TBFTLVFixedAddress_init (take 8 buf)])
         else Inr ts)
      else if tipe = HEADER_TYPE_KERNEL_VERSION then
        (if remaining \<ge> 4 \<and> len = 4 then Inr (ts @ [TBFTLVKernelVersion_init (take 4 buf)])
         else Inr ts)
      else Inr (ts @ [TBFTLVUnknown tipe (take (nat len) buf)]))"

lemma le_int_nonneg: "0 \<le> le_int bs"
  by (induction bs) simp_all

lemma unpack_fields_nonneg: "v \<in> set (unpack_fields fmt buf) \<Longrightarrow> 0 \<le> v"
  by (induction fmt arbitrary: buf) (auto simp: le_int_nonneg)

lemma length_unpack_fields: "length (unpack_fields fmt buf) = length fmt"
  by (induction fmt arbitrary: buf) simp_all

lemma struct_unpack_nth_nonneg:
  "struct_unpack fmt buf = Inr base \<Longrightarrow> i < length fmt \<Longrightarrow> 0 \<le> base ! i"
proof -
  assume un: "struct_unpack fmt buf = Inr base" and i: "i < length fmt"
  from un have base: "base = unpack_fields fmt buf"
    by (simp add: struct_unpack_def split: if_splits)
  with i have "base ! i \<in> set (unpack_fields fmt buf)"
    by (simp add: length_unpack_fields)
  then show ?thesis by (rule unpack_fields_nonneg)
qed

lemma roundup_4_ge: "x \<le> roundup x 4"
proof -
  have "x mod 4 < 4" by simp
  then show ?thesis unfolding roundup_def by (simp del: pos_mod_bound)
qed

text \<open>
  The loop \<open>while remaining >= 4\<close>. \<open>remaining\<close> is a Python integer and goes negative when
  a declared length overshoots the header; the slices of \<open>buffer\<close> stop at its end.
\<close>

function parse_loop :: "int \<Rightarrow> bytes \<Rightarrow> tlv list \<Rightarrow> error + tlv list" where
  "parse_loop remaining buf ts =
     (if remaining \<ge> 4 then
        (case struct_unpack [2, 2] (take 4 buf) of
           Inl e \<Rightarrow> Inl e
         | Inr base \<Rightarrow>
             (case parse_tlv (base ! 0) (base ! 1) (remaining - 4) (drop 4 buf) ts of
                Inl e \<Rightarrow> Inl e
              | Inr ts' \<Rightarrow>
                  parse_loop (remaining - 4 - roundup (base ! 1) 4)
                    (drop (nat (roundup (base ! 1) 4)) (drop 4 buf)) ts'))
      else Inr ts)"
  by pat_completeness auto
termination
proof (relation "measure (\<lambda>(remaining, buf, ts). nat remaining)")
  show "wf (measure (\<lambda>(remaining, buf, ts). nat remaining))" by simp
next
  fix remaining :: int and buf :: bytes and ts ts' :: "tlv list" and base :: "int list"
  assume rem: "4 \<le> remaining" and un: "struct_unpack [2, 2] (take 4 buf) = Inr base"
  have "0 \<le> base ! 1" using struct_unpack_nth_nonneg [OF un, of 1] by simp
  then have "0 \<le> roundup (base ! 1) 4" using roundup_4_ge [of "base ! 1"] by linarith
  then show "((remaining - 4 - roundup (base ! 1) 4,
               drop (nat (roundup (base ! 1) 4)) (drop 4 buf), ts'),
              remaining, buf, ts) \<in> measure (\<lambda>(remaining, buf, ts). nat remaining)"
    using rem by simp
qed

declare parse_loop.simps [simp del]

definition v1_field_names :: "string list" where
  "v1_field_names =
     [''total_size'', ''entry_offset'', ''rel_data_offset'', ''rel_data_size'', ''text_offset'',
      ''text_size'', ''got_offset'', ''got_size'', ''data_offset'', ''data_size'',
      ''bss_mem_offset'', ''bss_mem_size'', ''min_stack_len'', ''min_app_heap_len'',
      ''min_kernel_heap_len'', ''package_name_offset'', ''package_name_size'', ''checksum'']"

text \<open>The assignments \<open>self.fields[name] = base[i]\<close>, in the order of the source.\<close>

fun set_fields :: "(string \<rightharpoonup> int) \<Rightarrow> string list \<Rightarrow> int list \<Rightarrow> (string \<rightharpoonup> int)" where
  "set_fields m (k # ks) (v # vs) = set_fields (m(k \<mapsto> v)) ks vs"
| "set_fields m _ _ = m"

definition init_v1 :: "bytes \<Rightarrow> TBFHeader \<Rightarrow> error + TBFHeader" where
  "init_v1 full_buffer h =
     (let checksum = checksum_of (take 72 full_buffer);
          buf = drop 2 (drop 2 full_buffer);
          base = unpack_fields (replicate 18 4) (take 72 buf);
          h = h\<lparr>fields_dict := set_fields (fields_dict h) v1_field_names base, app := True\<rparr>
      in case lookup (fields_dict h) ''checksum'' of
           Inl e \<Rightarrow> Inl e
         | Inr stored \<Rightarrow> if checksum = stored then Inr (h\<lparr>valid := True\<rparr>) else Inr h)"

definition init_v2 :: "bytes \<Rightarrow> TBFHeader \<Rightarrow> error + TBFHeader" where
  "init_v2 full_buffer h =
     (let buf = drop 2 full_buffer;
          base = unpack_fields [2, 4, 4, 4] (take 14 buf);
          buf = drop 14 buf;
          h = h\<lparr>fields_dict := set_fields (fields_dict h)
                  [''header_size'', ''total_size'', ''flags'', ''checksum''] base\<rparr>;
          header_size = base ! 0;
          stored = base ! 3
      in if int (length full_buffer) \<ge> header_size \<and> header_size \<ge> 16 then
           (case struct_pack_into [4] (take (nat header_size) full_buffer) 12 [0] of
              Inl e \<Rightarrow> Inl e
            | Inr nbuf \<Rightarrow>
                (let checksum = checksum_of nbuf;
                     remaining = header_size - 16
                 in if remaining > 0 \<and> int (length buf) \<ge> remaining then
                      (case parse_loop remaining buf (tlvs h) of
                         Inl e \<Rightarrow> Inl e
                       | Inr ts \<Rightarrow>
                           (let h = h\<lparr>app := True, tlvs := ts\<rparr>
                            in if checksum = stored then Inr (h\<lparr>valid := True\<rparr>)
                               else Inr (h\<lparr>valid := True\<rparr>)))
                    else if checksum = stored then Inr (h\<lparr>valid := True\<rparr>)
                    else Inr h))
         else Inr h)"

definition TBFHeader_init :: "bytes \<Rightarrow> error + TBFHeader" where
  "TBFHeader_init full_buffer =
     (let h = \<lparr>valid = False, app = False, modified = False, fields_dict = Map.empty, tlvs = [],
               version = None\<rparr>
      in if length full_buffer < 2 then Inr h
         else
           (let v = unpack_fields [2] (take 2 full_buffer) ! 0;
                buf = drop 2 full_buffer;
                h = h\<lparr>version := Some v\<rparr>
            in if v = 1 \<and> length buf \<ge> 74 then init_v1 full_buffer h
               else if v = 2 \<and> length buf \<ge> 14 then init_v2 full_buffer h
               else Inr h))"

subsection \<open>Looking TLVs up\<close>

definition get_tlv :: "TBFHeader \<Rightarrow> int \<Rightarrow> tlv option" where
  "get_tlv h tlvid = find (\<lambda>t. get_tlvid t = tlvid) (tlvs h)"

definition get_binary_tlv :: "TBFHeader \<Rightarrow> tlv option" where
  "get_binary_tlv h =
     (case get_tlv h HEADER_TYPE_PROGRAM of
        None \<Rightarrow> get_tlv h HEADER_TYPE_MAIN
      | Some t \<Rightarrow> Some t)"

text \<open>
  Reading and adding to an attribute of a TLV object. Only \<open>TBFTLVMain\<close> and \<open>TBFTLVProgram\<close>
  objects built from a buffer of the right length have \<open>protected_size\<close> and
  \<open>init_fn_offset\<close>, and only such \<open>TBFTLVFixedAddress\<close> objects have \<open>fixed_address_flash\<close>.
\<close>

fun attr_protected_size :: "tlv \<Rightarrow> error + int" where
  "attr_protected_size (TBFTLVMain v (Some f)) = Inr (protected_size f)"
| "attr_protected_size (TBFTLVProgram v (Some f)) = Inr (protected_size f)"
| "attr_protected_size _ = Inl AttributeError"

fun attr_init_fn_offset :: "tlv \<Rightarrow> error + int" where
  "attr_init_fn_offset (TBFTLVMain v (Some f)) = Inr (init_fn_offset f)"
| "attr_init_fn_offset (TBFTLVProgram v (Some f)) = Inr (init_fn_offset f)"
| "attr_init_fn_offset _ = Inl AttributeError"

fun attr_fixed_address_flash :: "tlv \<Rightarrow> error + int" where
  "attr_fixed_address_flash (TBFTLVFixedAddress v (Some f)) = Inr (fixed_address_flash f)"
| "attr_fixed_address_flash _ = Inl AttributeError"

fun add_protected_size :: "int \<Rightarrow> tlv \<Rightarrow> error + tlv" where
  "add_protected_size d (TBFTLVMain v (Some f)) =
     Inr (TBFTLVMain v (Some (f\<lparr>protected_size := protected_size f + d\<rparr>)))"
| "add_protected_size d (TBFTLVProgram v (Some f)) =
     Inr (TBFTLVProgram v (Some (f\<lparr>protected_size := protected_size f + d\<rparr>)))"
| "add_protected_size d _ = Inl AttributeError"

fun add_init_fn_offset :: "int \<Rightarrow> tlv \<Rightarrow> error + tlv" where
  "add_init_fn_offset d (TBFTLVMain v (Some f)) =
     Inr (TBFTLVMain v (Some (f\<lparr>init_fn_offset := init_fn_offset f + d\<rparr>)))"
| "add_init_fn_offset d (TBFTLVProgram v (Some f)) =
     Inr (TBFTLVProgram v (Some (f\<lparr>init_fn_offset := init_fn_offset f + d\<rparr>)))"
| "add_init_fn_offset d _ = Inl AttributeError"

text \<open>
  The TLV objects are shared between \<open>self.tlvs\<close> and the local variable that \<open>_get_tlv\<close>
  returned: an assignment through the variable changes the first entry of the list with that
  id. With no such entry the variable is \<open>None\<close> and the guarded statement is skipped.
\<close>

fun update_first :: "int \<Rightarrow> (tlv \<Rightarrow> error + tlv) \<Rightarrow> tlv list \<Rightarrow> error + tlv list" where
  "update_first tlvid f [] = Inr []"
| "update_first tlvid f (t # ts) =
     (if get_tlvid t = tlvid
      then (case f t of Inl e \<Rightarrow> Inl e | Inr t' \<Rightarrow> Inr (t' # ts))
      else (case update_first tlvid f ts of Inl e \<Rightarrow> Inl e | Inr ts' \<Rightarrow> Inr (t # ts')))"

subsection \<open>Mutators\<close>

text \<open>
  A mutator changes the object in place and may raise part of the way through. Its result
  is \<open>Inr h'\<close> when it returns with the object in state \<open>h'\<close>, and \<open>Inl (e, h')\<close> when it raises
  \<open>e\<close> leaving the object in state \<open>h'\<close>.
\<close>

type_synonym mutation = "(error \<times> TBFHeader) + TBFHeader"



text \<open>
  The first loop of \<open>delete_tlv\<close>: \<open>indices\<close> collects the positions of the matching TLVs,
  last match first, and \<open>size\<close> adds up their \<open>get_size()\<close>, which packs them and so may raise.
\<close>

fun delete_scan :: "int \<Rightarrow> tlv list \<Rightarrow> nat \<Rightarrow> nat list \<Rightarrow> int \<Rightarrow> error + nat list \<times> int" where
  "delete_scan tlvid [] i indices sz = Inr (indices, sz)"
| "delete_scan tlvid (t # ts) i indices sz =
     (if get_tlvid t = tlvid then
        (case get_size t of
           Inl e \<Rightarrow> Inl e
         | Inr n \<Rightarrow> delete_scan tlvid ts (Suc i) (i # indices) (sz + n))
      else delete_scan tlvid ts (Suc i) indices sz)"

definition pop :: "nat \<Rightarrow> 'a list \<Rightarrow> 'a list" where
  "pop index xs = take index xs @ drop (Suc index) xs"

text \<open>The second loop: \<open>self.tlvs.pop(index)\<close> and \<open>self.modified = True\<close> for each index.\<close>

fun delete_pops :: "nat list \<Rightarrow> TBFHeader \<Rightarrow> TBFHeader" where
  "delete_pops [] h = h"
| "delete_pops (index # indices) h =
     delete_pops indices (h\<lparr>tlvs := pop index (tlvs h), modified := True\<rparr>)"

text \<open>
  The four guarded updates at the end of \<open>delete_tlv\<close>, in the order of the source; any of
  them may raise, with the earlier ones done.
\<close>

fun apply_updates :: "(int \<times> (tlv \<Rightarrow> error + tlv)) list \<Rightarrow> TBFHeader \<Rightarrow> mutation" where
  "apply_updates [] h = Inr h"
| "apply_updates ((tlvid, f) # us) h =
     (case update_first tlvid f (tlvs h) of
        Inl e \<Rightarrow> Inl (e, h)
      | Inr ts \<Rightarrow> apply_updates us (h\<lparr>tlvs := ts\<rparr>))"

definition delete_tlv :: "int \<Rightarrow> TBFHeader \<Rightarrow> mutation" where
  "delete_tlv tlvid h =
     (case delete_scan tlvid (tlvs h) 0 [] 0 of
        Inl e \<Rightarrow> Inl (e, h)
      | Inr (indices, sz) \<Rightarrow>
          (let h = delete_pops indices h
           in case fields_dict h ''header_size'' of
                None \<Rightarrow> Inl (KeyError, h)
              | Some header_size \<Rightarrow>
                  apply_updates
                    [(HEADER_TYPE_MAIN, add_protected_size sz),
                     (HEADER_TYPE_PROGRAM, add_protected_size sz),
                     (HEADER_TYPE_MAIN, add_init_fn_offset sz),
                     (HEADER_TYPE_PROGRAM, add_init_fn_offset sz)]
                    (h\<lparr>fields_dict := (fields_dict h)(''header_size'' \<mapsto> header_size - sz)\<rparr>)))"

text \<open>
  \<open>modify_tlv\<close> is called with an integer value. \<open>tlv_setattr\<close> is \<open>getattr\<close> followed by
  \<open>setattr\<close> for the integer data attributes of each class, the ones the constructors
  assign; \<open>None\<close> is the \<open>getattr\<close> that fails. The other names a Python object answers to
  (\<open>valid\<close>, \<open>TLVID\<close>, the byte and string attributes, the methods) are not part of this model.
\<close>

fun tlv_setattr :: "string \<Rightarrow> int \<Rightarrow> tlv \<Rightarrow> tlv option" where
  "tlv_setattr field val (TBFTLVUnknown t b) =
     (if field = ''tipe'' then Some (TBFTLVUnknown val b) else None)"
| "tlv_setattr field val (TBFTLVMain v (Some f)) =
     (if field = ''init_fn_offset'' then Some (TBFTLVMain v (Some (f\<lparr>init_fn_offset := val\<rparr>)))
      else if field = ''protected_size''
      then Some (TBFTLVMain v (Some (f\<lparr>protected_size := val\<rparr>)))
      else if field = ''minimum_ram_size''
      then Some (TBFTLVMain v (Some (f\<lparr>minimum_ram_size := val\<rparr>)))
      else None)"
| "tlv_setattr field val (TBFTLVProgram v (Some f)) =
     (if field = ''init_fn_offset''
      then Some (TBFTLVProgram v (Some (f\<lparr>init_fn_offset := val\<rparr>)))
      else if field = ''protected_size''
      then Some (TBFTLVProgram v (Some (f\<lparr>protected_size := val\<rparr>)))
      else if field = ''minimum_ram_size''
      then Some (TBFTLVProgram v (Some (f\<lparr>minimum_ram_size := val\<rparr>)))
      else if field = ''binary_end_offset''
      then Some (TBFTLVProgram v (Some (f\<lparr>binary_end_offset := val\<rparr>)))
      else if field = ''app_version''
      then Some (TBFTLVProgram v (Some (f\<lparr>app_version := val\<rparr>)))
      else None)"
| "tlv_setattr field val (TBFTLVPicOption1 v (Some f)) =
     (if field = ''text_offset'' then Some (TBFTLVPicOption1 v (Some (f\<lparr>text_offset := val\<rparr>)))
      else if field = ''data_offset''
      then Some (TBFTLVPicOption1 v (Some (f\<lparr>data_offset := val\<rparr>)))
      else if field = ''data_size''
      then Some (TBFTLVPicOption1 v (Some (f\<lparr>data_size := val\<rparr>)))
      else if field = ''bss_memory_offset''
      then Some (TBFTLVPicOption1 v (Some (f\<lparr>bss_memory_offset := val\<rparr>)))
      else if field = ''bss_size''
      then Some (TBFTLVPicOption1 v (Some (f\<lparr>bss_size := val\<rparr>)))
      else if field = ''relocation_data_offset''
      then Some (TBFTLVPicOption1 v (Some (f\<lparr>relocation_data_offset := val\<rparr>)))
      else if field = ''relocation_data_size''
      then Some (TBFTLVPicOption1 v (Some (f\<lparr>relocation_data_size := val\<rparr>)))
      else if field = ''got_offset''
      then Some (TBFTLVPicOption1 v (Some (f\<lparr>got_offset := val\<rparr>)))
      else if field = ''got_size''
      then Some (TBFTLVPicOption1 v (Some (f\<lparr>got_size := val\<rparr>)))
      else if field = ''minimum_stack_length''
      then Some (TBFTLVPicOption1 v (Some (f\<lparr>minimum_stack_length := val\<rparr>)))
      else None)"
| "tlv_setattr field val (TBFTLVFixedAddress v (Some f)) =
     (if field = ''fixed_address_ram''
      then Some (TBFTLVFixedAddress v (Some (f\<lparr>fixed_address_ram := val\<rparr>)))
      else if field = ''fixed_address_flash''
      then Some (TBFTLVFixedAddress v (Some (f\<lparr>fixed_address_flash := val\<rparr>)))
      else None)"
| "tlv_setattr field val (TBFTLVKernelVersion v (Some f)) =
     (if field = ''kernel_major''
      then Some (TBFTLVKernelVersion v (Some (f\<lparr>kernel_major := val\<rparr>)))
      else if field = ''kernel_minor''
      then Some (TBFTLVKernelVersion v (Some (f\<lparr>kernel_minor := val\<rparr>)))
      else None)"
| "tlv_setattr field val _ = None"

text \<open>
  The loop of \<open>modify_tlv\<close> over \<open>self.tlvs\<close>: the TLVs already visited, the ones still to
  visit, and the object. It raises at the first matching TLV without the field, after the
  earlier matches have been changed.
\<close>

fun modify_loop :: "int \<Rightarrow> string \<Rightarrow> int \<Rightarrow> tlv list \<Rightarrow> tlv list \<Rightarrow> TBFHeader \<Rightarrow> mutation" where
  "modify_loop tlvid field val seen [] h = Inr (h\<lparr>tlvs := seen\<rparr>)"
| "modify_loop tlvid field val seen (t # ts) h =
     (if get_tlvid t = tlvid then
        (case tlv_setattr field val t of
           None \<Rightarrow> Inl (TockLoaderException, h\<lparr>tlvs := seen @ t # ts\<rparr>)
         | Some t' \<Rightarrow> modify_loop tlvid field val (seen @ [t']) ts (h\<lparr>modified := True\<rparr>))
      else modify_loop tlvid field val (seen @ [t]) ts h)"

definition modify_tlv :: "int \<Rightarrow> string \<Rightarrow> int \<Rightarrow> TBFHeader \<Rightarrow> mutation" where
  "modify_tlv tlvid field val h =
     (if tlvid = 0 then Inr (h\<lparr>fields_dict := (fields_dict h)(field \<mapsto> val)\<rparr>)
      else modify_loop tlvid field val [] (tlvs h) h)"

text \<open>
  \<open>adjust_starting_address\<close>. The operands of the comparison are evaluated left to right:
  \<open>self.fields["header_size"]\<close>, then \<open>tlv_program.protected_size\<close> (an \<open>AttributeError\<close>
  when \<open>_get_binary_tlv\<close> found nothing), then \<open>tlv_fixed_addr.fixed_address_flash\<close>.
  \<open>tlv_program\<close> is the first Program TLV, or the first Main TLV when there is no Program.
\<close>

definition binary_tlvid :: "TBFHeader \<Rightarrow> int" where
  "binary_tlvid h =
     (case get_tlv h HEADER_TYPE_PROGRAM of
        None \<Rightarrow> HEADER_TYPE_MAIN
      | Some t \<Rightarrow> HEADER_TYPE_PROGRAM)"

definition adjust_starting_address :: "int \<Rightarrow> TBFHeader \<Rightarrow> mutation" where
  "adjust_starting_address address h =
     (case get_tlv h HEADER_TYPE_FIXED_ADDRESSES of
        None \<Rightarrow> Inr h
      | Some tlv_fixed_addr \<Rightarrow>
          (case lookup (fields_dict h) ''header_size'' of
             Inl e \<Rightarrow> Inl (e, h)
           | Inr header_size \<Rightarrow>
               (case get_binary_tlv h of
                  None \<Rightarrow> Inl (AttributeError, h)
                | Some tlv_program \<Rightarrow>
                    (case attr_protected_size tlv_program of
                       Inl e \<Rightarrow> Inl (e, h)
                     | Inr psize \<Rightarrow>
                         (case attr_fixed_address_flash tlv_fixed_addr of
                            Inl e \<Rightarrow> Inl (e, h)
                          | Inr flash \<Rightarrow>
                              if address + header_size + psize \<noteq> flash then
                                (if address + header_size + psize < flash then
                                   (let delta = flash - (address + header_size + psize)
                                    in apply_updates
                                         [(binary_tlvid h, add_protected_size delta),
                                          (binary_tlvid h, add_init_fn_offset delta)] h)
                                 else Inl (TockLoaderException, h))
                              else Inr h)))))"

subsection \<open>Serialisation\<close>

fun pack_all :: "tlv list \<Rightarrow> error + bytes" where
  "pack_all [] = Inr []"
| "pack_all (t # ts) =
     (case pack t of
        Inl e \<Rightarrow> Inl e
      | Inr b \<Rightarrow> (case pack_all ts of Inl e \<Rightarrow> Inl e | Inr out \<Rightarrow> Inr (b @ out)))"

text \<open>
  Version 1: the format has nineteen \<open>I\<close> fields and the call passes eighteen values.
\<close>

definition get_binary_v1 :: "TBFHeader \<Rightarrow> int \<Rightarrow> error + bytes" where
  "get_binary_v1 h v =
     (case lookups (fields_dict h) (butlast v1_field_names) of
        Inl e \<Rightarrow> Inl e
      | Inr vals \<Rightarrow>
          (case struct_pack (replicate 19 4) (v # vals) of
             Inl e \<Rightarrow> Inl e
           | Inr buf \<Rightarrow>
               (case struct_pack [4] [checksum_of buf] of
                  Inl e \<Rightarrow> Inl e
                | Inr c \<Rightarrow> Inr (buf @ c))))"

text \<open>
  Version 2: \<open>buf\<close> is a \<open>bytearray\<close> when \<open>_checksum\<close> receives it, so the padding that
  \<open>_checksum\<close> appends stays in \<open>buf\<close>.
\<close>

definition get_binary_v2 :: "TBFHeader \<Rightarrow> int \<Rightarrow> error + bytes" where
  "get_binary_v2 h v =
     (case lookups (fields_dict h) [''header_size'', ''total_size'', ''flags''] of
        Inl e \<Rightarrow> Inl e
      | Inr vals \<Rightarrow>
          (case struct_pack [2, 2, 4, 4, 4] (v # vals @ [0]) of
             Inl e \<Rightarrow> Inl e
           | Inr base \<Rightarrow>
               (case (if app h then pack_all (tlvs h) else Inr []) of
                  Inl e \<Rightarrow> Inl e
                | Inr packed \<Rightarrow>
                    (let buf = checksum_pad (base @ packed);
                         checksum = checksum_of buf
                     in case struct_pack_into [4] buf 12 [checksum] of
                          Inl e \<Rightarrow> Inl e
                        | Inr buf \<Rightarrow>
                            (case get_binary_tlv h of
                               None \<Rightarrow> Inr buf
                             | Some tlv_binary \<Rightarrow>
                                 (case attr_protected_size tlv_binary of
                                    Inl e \<Rightarrow> Inl e
                                  | Inr psize \<Rightarrow>
                                      if psize > 0 then Inr (buf @ replicate (nat psize) 0)
                                      else Inr buf))))))"

definition get_binary :: "TBFHeader \<Rightarrow> error + bytes" where
  "get_binary h =
     (case version h of
        None \<Rightarrow> Inl AttributeError
      | Some v \<Rightarrow>
          if v = 1 then get_binary_v1 h v
          else if v = 2 then get_binary_v2 h v
          else Inl UnboundLocalError)"

section \<open>The Credentials TLV of the footer\<close>

text \<open>
  The digests of \<open>hashlib\<close> and the RSA check of the \<open>Crypto\<close> package are not part of this
  program: they are the fields of \<open>crypto\<close>, over any type \<open>'k\<close> of key objects. \<open>key_n\<close> is the
  modulus \<open>key.n\<close>; \<open>pkcs1_15_verify key blob signature\<close> says whether
  \<open>pkcs1_15.new(key).verify(SHA512.new(blob), signature)\<close> returns without raising.
\<close>

record 'k crypto =
  sha256 :: "bytes \<Rightarrow> bytes"
  sha384 :: "bytes \<Rightarrow> bytes"
  sha512 :: "bytes \<Rightarrow> bytes"
  key_n :: "'k \<Rightarrow> int"
  pkcs1_15_verify :: "'k \<Rightarrow> bytes \<Rightarrow> bytes \<Rightarrow> bool"

text \<open>
  \<open>credentials_type\<close> and \<open>buffer\<close> are assigned only in the branches of the constructor
  that recognise the type tag. \<open>verified\<close> is one of the strings of the source.
\<close>

record TBFFooterTLVCredentials =
  cred_valid :: bool
  verified :: string
  credentials_type :: "int option"
  cred_buffer :: "bytes option"

definition CREDENTIALS_TYPE_RESERVED :: int where "CREDENTIALS_TYPE_RESERVED = 0"
definition CREDENTIALS_TYPE_RSA4096KEY :: int where "CREDENTIALS_TYPE_RSA4096KEY = 3"
definition CREDENTIALS_TYPE_SHA256 :: int where "CREDENTIALS_TYPE_SHA256 = 6"
definition CREDENTIALS_TYPE_SHA384 :: int where "CREDENTIALS_TYPE_SHA384 = 7"
definition CREDENTIALS_TYPE_SHA512 :: int where "CREDENTIALS_TYPE_SHA512 = 8"

lemmas CREDENTIALS_TYPE_defs =
  CREDENTIALS_TYPE_RESERVED_def CREDENTIALS_TYPE_RSA4096KEY_def CREDENTIALS_TYPE_SHA256_def
  CREDENTIALS_TYPE_SHA384_def CREDENTIALS_TYPE_SHA512_def

text \<open>\<open>int.from_bytes(b, "big")\<close>.\<close>

definition be_int :: "bytes \<Rightarrow> int" where
  "be_int b = le_int (rev b)"

text \<open>The loop over \<open>keys\<close>: it stops at the first key whose modulus matches.\<close>

fun verify_keys ::
  "'k crypto \<Rightarrow> 'k list \<Rightarrow> int \<Rightarrow> bytes \<Rightarrow> bytes \<Rightarrow> TBFFooterTLVCredentials
     \<Rightarrow> TBFFooterTLVCredentials" where
  "verify_keys lib [] pub_key_n blob signature c = c"
| "verify_keys lib (key # keys) pub_key_n blob signature c =
     (if pub_key_n = key_n lib key
      then (if pkcs1_15_verify lib key blob signature then c\<lparr>verified := ''yes''\<rparr>
            else c\<lparr>verified := ''no''\<rparr>)
      else verify_keys lib keys pub_key_n blob signature c)"

definition check_hash ::
  "bytes \<Rightarrow> TBFFooterTLVCredentials \<Rightarrow> error + TBFFooterTLVCredentials" where
  "check_hash hash c =
     (case cred_buffer c of
        None \<Rightarrow> Inl AttributeError
      | Some b \<Rightarrow> if b = hash then Inr (c\<lparr>verified := ''yes''\<rparr>) else Inr (c\<lparr>verified := ''no''\<rparr>))"

definition verify ::
  "'k crypto \<Rightarrow> 'k list \<Rightarrow> bytes option \<Rightarrow> TBFFooterTLVCredentials
     \<Rightarrow> error + TBFFooterTLVCredentials" where
  "verify lib keys integrity_blob c =
     (case integrity_blob of
        None \<Rightarrow> Inr c
      | Some blob \<Rightarrow>
          (case credentials_type c of
             None \<Rightarrow> Inl AttributeError
           | Some ct \<Rightarrow>
               if ct = CREDENTIALS_TYPE_SHA256 then check_hash (sha256 lib blob) c
               else if ct = CREDENTIALS_TYPE_SHA384 then check_hash (sha384 lib blob) c
               else if ct = CREDENTIALS_TYPE_SHA512 then check_hash (sha512 lib blob) c
               else if ct = CREDENTIALS_TYPE_RSA4096KEY then
                 (case cred_buffer c of
                    None \<Rightarrow> Inl AttributeError
                  | Some b \<Rightarrow>
                      Inr (verify_keys lib keys (be_int (take 512 b)) blob
                             (take 512 (drop 512 b)) c))
               else Inr c))"

definition TBFFooterTLVCredentials_init ::
  "'k crypto \<Rightarrow> bytes \<Rightarrow> bytes option \<Rightarrow> error + TBFFooterTLVCredentials" where
  "TBFFooterTLVCredentials_init lib buf integrity_blob =
     (let c = \<lparr>cred_valid = False, verified = ''unknown'', credentials_type = None,
               cred_buffer = None\<rparr>
      in if length buf \<ge> 4 then
           (let ct = unpack_fields [4] (take 4 buf) ! 0;
                c' = c\<lparr>credentials_type := Some ct, cred_buffer := Some (drop 4 buf)\<rparr>
            in if ct = CREDENTIALS_TYPE_RESERVED then Inr (c'\<lparr>cred_valid := True\<rparr>)
               else if ct = CREDENTIALS_TYPE_SHA256 then
                 verify lib [] integrity_blob
                   (if length (drop 4 buf) = 64 then c'\<lparr>cred_valid := True\<rparr> else c')
               else if ct = CREDENTIALS_TYPE_SHA384 then
                 verify lib [] integrity_blob
                   (if length (drop 4 buf) = 96 then c'\<lparr>cred_valid := True\<rparr> else c')
               else if ct = CREDENTIALS_TYPE_SHA512 then
                 verify lib [] integrity_blob
                   (if length (drop 4 buf) = 128 then c'\<lparr>cred_valid := True\<rparr> else c')
               else if ct = CREDENTIALS_TYPE_RSA4096KEY then
                 Inr (if length (drop 4 buf) = 1024 then c'\<lparr>cred_valid := True\<rparr> else c')
               else Inr c)
         else Inr c)"

section \<open>Notions and objects used in the statements\<close>

text \<open>
  \<open>first_at tlvid ts i\<close>: position \<open>i\<close> holds the first TLV of \<open>ts\<close> with id \<open>tlvid\<close>, the one
  \<open>_get_tlv\<close> returns.
\<close>

definition first_at :: "int \<Rightarrow> tlv list \<Rightarrow> nat \<Rightarrow> bool" where
  "first_at tlvid ts i =
     (i < length ts \<and> get_tlvid (ts ! i) = tlvid \<and> (\<forall>j<i. get_tlvid (ts ! j) \<noteq> tlvid))"

text \<open>
  A Main or Program TLV with \<open>protected_size\<close> and \<open>init_fn_offset\<close> both increased by \<open>d\<close>
  and every other attribute as it was.
\<close>

fun grow_binary :: "int \<Rightarrow> tlv \<Rightarrow> tlv" where
  "grow_binary d (TBFTLVMain v (Some f)) =
     TBFTLVMain v
       (Some (f\<lparr>init_fn_offset := init_fn_offset f + d, protected_size := protected_size f + d\<rparr>))"
| "grow_binary d (TBFTLVProgram v (Some f)) =
     TBFTLVProgram v
       (Some (f\<lparr>init_fn_offset := init_fn_offset f + d, protected_size := protected_size f + d\<rparr>))"
| "grow_binary d t = t"

text \<open>The two halves of \<open>grow_binary\<close>, one attribute each.\<close>

fun grow_protected :: "int \<Rightarrow> tlv \<Rightarrow> tlv" where
  "grow_protected d (TBFTLVMain v (Some f)) =
     TBFTLVMain v (Some (f\<lparr>protected_size := protected_size f + d\<rparr>))"
| "grow_protected d (TBFTLVProgram v (Some f)) =
     TBFTLVProgram v (Some (f\<lparr>protected_size := protected_size f + d\<rparr>))"
| "grow_protected d t = t"

fun grow_init :: "int \<Rightarrow> tlv \<Rightarrow> tlv" where
  "grow_init d (TBFTLVMain v (Some f)) =
     TBFTLVMain v (Some (f\<lparr>init_fn_offset := init_fn_offset f + d\<rparr>))"
| "grow_init d (TBFTLVProgram v (Some f)) =
     TBFTLVProgram v (Some (f\<lparr>init_fn_offset := init_fn_offset f + d\<rparr>))"
| "grow_init d t = t"

text \<open>
  \<open>map_first tlvid g ts\<close>: the list \<open>ts\<close> with its first TLV of id \<open>tlvid\<close>, if there is one,
  replaced by \<open>g\<close> of it.
\<close>

fun map_first :: "int \<Rightarrow> (tlv \<Rightarrow> tlv) \<Rightarrow> tlv list \<Rightarrow> tlv list" where
  "map_first tlvid g [] = []"
| "map_first tlvid g (t # ts) =
     (if get_tlvid t = tlvid then g t # ts else t # map_first tlvid g ts)"

text \<open>
  Every TLV whose id is that of Main or Program has the attributes \<open>protected_size\<close> and
  \<open>init_fn_offset\<close>: it is an object of that class, built from a buffer of the right length.
\<close>

definition binary_ok :: "tlv \<Rightarrow> bool" where
  "binary_ok t =
     (get_tlvid t = HEADER_TYPE_MAIN \<or> get_tlvid t = HEADER_TYPE_PROGRAM \<longrightarrow>
        attr_protected_size t \<noteq> Inl AttributeError)"

subsection \<open>Well-formed version-2 header buffers\<close>

text \<open>
  The fields of a version-2 buffer as the format lays them out: the header size at offset 2,
  the stored checksum at offset 12, and the checksum recomputed over the first
  \<open>header_size\<close> bytes with the four bytes at offset 12 set to zero.
\<close>

definition header_size_of :: "bytes \<Rightarrow> int" where
  "header_size_of b = le_int (take 2 (drop 2 b))"

definition stored_checksum :: "bytes \<Rightarrow> int" where
  "stored_checksum b = le_int (take 4 (drop 12 b))"

definition computed_checksum :: "bytes \<Rightarrow> int" where
  "computed_checksum b =
     checksum_of (take 12 b @ [0, 0, 0, 0] @ drop 16 (take (nat (header_size_of b)) b))"

text \<open>
  The object after the base fields of a version-2 buffer have been read: the four fields
  in the dictionary, no TLVs yet, neither valid nor an application.
\<close>

definition v2_base :: "bytes \<Rightarrow> TBFHeader" where
  "v2_base b =
     \<lparr>valid = False, app = False, modified = False,
      fields_dict = [''header_size'' \<mapsto> header_size_of b,
                     ''total_size'' \<mapsto> le_int (take 4 (drop 4 b)),
                     ''flags'' \<mapsto> le_int (take 4 (drop 8 b)),
                     ''checksum'' \<mapsto> stored_checksum b],
      tlvs = [], version = Some 2\<rparr>"

text \<open>
  A well-formed TLV payload: the fixed length of its variant, a multiple of 8 for the
  Writeable Flash Regions, valid UTF-8 for the package name, anything for an unknown id.
\<close>

definition wf_tlv :: "int \<Rightarrow> bytes \<Rightarrow> bool" where
  "wf_tlv tipe body =
     (if tipe = HEADER_TYPE_MAIN then length body = 12
      else if tipe = HEADER_TYPE_PROGRAM then length body = 20
      else if tipe = HEADER_TYPE_WRITEABLE_FLASH_REGIONS then length body mod 8 = 0
      else if tipe = HEADER_TYPE_PACKAGE_NAME then utf8_decode (map unat body) \<noteq> None
      else if tipe = HEADER_TYPE_PIC_OPTION_1 then length body = 40
      else if tipe = HEADER_TYPE_FIXED_ADDRESSES then length body = 8
      else if tipe = HEADER_TYPE_KERNEL_VERSION then length body = 4
      else True)"

text \<open>
  A well-formed TLV stream: a sequence of TLVs, each a prefix (type, length), a well-formed
  payload of that length and zero bytes up to the next multiple of four, with nothing left
  over at the end.
\<close>

function wf_tlv_stream :: "bytes \<Rightarrow> bool" where
  "wf_tlv_stream bs =
     (if bs = [] then True
      else if length bs < 4 then False
      else
        (let tipe = le_int (take 2 bs);
             len = nat (le_int (take 2 (drop 2 bs)));
             padded = nat (roundup (int len) 4)
         in 4 + padded \<le> length bs \<and>
            wf_tlv tipe (take len (drop 4 bs)) \<and>
            take (padded - len) (drop (4 + len) bs) = replicate (padded - len) 0 \<and>
            wf_tlv_stream (drop (4 + padded) bs)))"
  by pat_completeness auto
termination
  by (relation "measure length") auto

declare wf_tlv_stream.simps [simp del]

text \<open>
  A well-formed version-2 header buffer: the version is 2, the buffer is the header
  (\<open>header_size\<close> is its length), the stored checksum is the computed one, and the bytes
  after the 16 bytes of the base fields are a well-formed TLV stream.
\<close>

definition wf_v2_header :: "bytes \<Rightarrow> bool" where
  "wf_v2_header b =
     (length b \<ge> 16 \<and> le_int (take 2 b) = 2 \<and> header_size_of b = int (length b) \<and>
      stored_checksum b = computed_checksum b \<and> wf_tlv_stream (drop 16 b))"

text \<open>
  Every package name that the parse loop reads is valid UTF-8. The predicate walks the TLV
  stream as the loop does, from prefix to prefix, and looks at the payload of each TLV of
  type PackageName whose declared length fits in the rest of the header.
\<close>

function names_decodable :: "int \<Rightarrow> bytes \<Rightarrow> bool" where
  "names_decodable remaining buf =
     (if remaining \<ge> 4 then
        (let tipe = le_int (take 2 buf);
             len = le_int (take 2 (drop 2 buf))
         in (tipe = HEADER_TYPE_PACKAGE_NAME \<and> len \<le> remaining - 4 \<longrightarrow>
               utf8_decode (map unat (take (nat len) (drop 4 buf))) \<noteq> None) \<and>
            names_decodable (remaining - 4 - roundup len 4)
              (drop (nat (roundup len 4)) (drop 4 buf)))
      else True)"
  by pat_completeness auto
termination
proof (relation "measure (\<lambda>(remaining, buf). nat remaining)")
  show "wf (measure (\<lambda>(remaining, buf). nat remaining))" by simp
next
  fix remaining :: int and buf :: bytes and tipe len :: int
  assume rem: "4 \<le> remaining" and len: "len = le_int (take 2 (drop 2 buf))"
  have "0 \<le> len" unfolding len by (rule le_int_nonneg)
  then have "0 \<le> roundup len 4" using roundup_4_ge [of len] by linarith
  then show "((remaining - 4 - roundup len 4, drop (nat (roundup len 4)) (drop 4 buf)),
              remaining, buf) \<in> measure (\<lambda>(remaining, buf). nat remaining)"
    using rem by simp
qed

declare names_decodable.simps [simp del]

text \<open>Parsing a buffer and serialising the header again.\<close>

definition repack :: "bytes \<Rightarrow> error + bytes" where
  "repack b = (case TBFHeader_init b of Inl e \<Rightarrow> Inl e | Inr h \<Rightarrow> get_binary h)"

text \<open>The protected size of the Program (else Main) TLV of a header, 0 without one.\<close>

definition protected_size_of :: "TBFHeader \<Rightarrow> int" where
  "protected_size_of h =
     (case get_binary_tlv h of
        None \<Rightarrow> 0
      | Some t \<Rightarrow> (case attr_protected_size t of Inl e \<Rightarrow> 0 | Inr p \<Rightarrow> p))"


text \<open>A valid padding header of 512 bytes with the enable flag set.\<close>

definition padding_header :: TBFHeader where
  "padding_header =
     \<lparr>valid = True, app = False, modified = False,
      fields_dict = [''header_size'' \<mapsto> 16, ''total_size'' \<mapsto> 512, ''flags'' \<mapsto> 1,
                     ''checksum'' \<mapsto> 1049091],
      tlvs = [], version = Some 2\<rparr>"

text \<open>An application header with a Main TLV and a Fixed Addresses TLV.\<close>

definition fixed_header :: TBFHeader where
  "fixed_header =
     \<lparr>valid = True, app = True, modified = False,
      fields_dict = [''header_size'' \<mapsto> 44, ''total_size'' \<mapsto> 512, ''flags'' \<mapsto> 1,
                     ''checksum'' \<mapsto> 0],
      tlvs = [TBFTLVMain True
                (Some \<lparr>init_fn_offset = 32, protected_size = 0, minimum_ram_size = 1024\<rparr>),
              TBFTLVFixedAddress True
                (Some \<lparr>fixed_address_ram = 536870912, fixed_address_flash = 262272\<rparr>)],
      version = Some 2\<rparr>"

text \<open>
  Version-2 buffers with \<open>total_size\<close> 512 and the enable flag. \<open>main_buffer\<close> has a Main TLV
  (\<open>init_fn_offset\<close> 32, \<open>protected_size\<close> 4, \<open>minimum_ram_size\<close> 1024) and the right
  checksum; \<open>bad_main_buffer\<close> is the same with the checksum field zero. \<open>padding_buffer\<close> is a
  padding header, and \<open>bad_padding_buffer\<close> the same with the checksum field zero.
  \<open>bad_name_buffer\<close> has the checksum field zero and a PackageName TLV whose one byte,
  255, is not UTF-8; \<open>bad_blink_buffer\<close> has the checksum field zero and the package name
  \<open>blink\<close>. \<open>short_main_buffer\<close> declares a Main TLV of 8 bytes, \<open>odd_wfr_buffer\<close> a Writeable Flash Regions TLV of 4 bytes, both with the right
  checksum.
\<close>

definition main_buffer :: bytes where
  "main_buffer =
     [2, 0, 32, 0, 0, 2, 0, 0, 1, 0, 0, 0, 38, 6, 44, 0,
      1, 0, 12, 0, 32, 0, 0, 0, 4, 0, 0, 0, 0, 4, 0, 0]"

definition bad_main_buffer :: bytes where
  "bad_main_buffer =
     [2, 0, 32, 0, 0, 2, 0, 0, 1, 0, 0, 0, 0, 0, 0, 0,
      1, 0, 12, 0, 32, 0, 0, 0, 4, 0, 0, 0, 0, 4, 0, 0]"

definition padding_buffer :: bytes where
  "padding_buffer = [2, 0, 16, 0, 0, 2, 0, 0, 1, 0, 0, 0, 3, 2, 16, 0]"

definition bad_padding_buffer :: bytes where
  "bad_padding_buffer = [2, 0, 16, 0, 0, 2, 0, 0, 1, 0, 0, 0, 0, 0, 0, 0]"

definition bad_name_buffer :: bytes where
  "bad_name_buffer =
     [2, 0, 24, 0, 0, 2, 0, 0, 1, 0, 0, 0, 0, 0, 0, 0,
      3, 0, 1, 0, 255, 0, 0, 0]"

definition bad_blink_buffer :: bytes where
  "bad_blink_buffer =
     [2, 0, 28, 0, 0, 2, 0, 0, 1, 0, 0, 0, 0, 0, 0, 0,
      3, 0, 5, 0, 98, 108, 105, 110, 107, 0, 0, 0]"

definition short_main_buffer :: bytes where
  "short_main_buffer =
     [2, 0, 28, 0, 0, 2, 0, 0, 1, 0, 0, 0, 6, 6, 16, 12,
      1, 0, 8, 0, 1, 2, 3, 4, 5, 6, 7, 8]"

definition odd_wfr_buffer :: bytes where
  "odd_wfr_buffer =
     [2, 0, 24, 0, 0, 2, 0, 0, 1, 0, 0, 0, 0, 0, 31, 4,
      2, 0, 4, 0, 1, 2, 3, 4]"

text \<open>Stand-ins for the library functions, for evaluating \<open>verify\<close> on an example.\<close>

definition toy_crypto :: "unit crypto" where
  "toy_crypto =
     \<lparr>sha256 = (\<lambda>b. replicate 32 (of_nat (length b))),
      sha384 = (\<lambda>b. replicate 48 (of_nat (length b))),
      sha512 = (\<lambda>b. replicate 64 (of_nat (length b))),
      key_n = (\<lambda>k. 0), pkcs1_15_verify = (\<lambda>k b s. False)\<rparr>"

definition sha256_credential :: TBFFooterTLVCredentials where
  "sha256_credential =
     \<lparr>cred_valid = False, verified = ''unknown'',
      credentials_type = Some CREDENTIALS_TYPE_SHA256, cred_buffer = Some (replicate 32 3)\<rparr>"

section \<open>The Writeable Flash Regions constructor\<close>

lemma length_wfr_loop: "length (wfr_loop n buf) = n"
  by (induction n) simp_all

lemma wfr_loop_nth:
  "i < n \<Longrightarrow> wfr_loop n buf ! i =
     (le_int (take 4 (drop (i * 8) buf)), le_int (take 4 (drop (i * 8 + 4) buf)))"
proof (induction n)
  case 0
  then show ?case by simp
next
  case (Suc n)
  show ?case
  proof (cases "i = n")
    case True
    then show ?thesis by (simp add: nth_append length_wfr_loop)
  next
    case False
    with Suc.prems have "i < n" by simp
    with Suc.IH show ?thesis by (simp add: nth_append length_wfr_loop)
  qed
qed

text \<open>
  Claim C10. The constructor of the Writeable Flash Regions TLV never sets \<open>valid\<close>: the
  flag is false for every buffer. For a buffer whose length is a multiple of 8 it does parse
  the regions: there is one (offset, length) pair for each group of 8 bytes, read as two
  little-endian 32-bit values.
\<close>

theorem wfr_init_never_valid:
  "tlv_valid (TBFTLVWriteableFlashRegions_init buf) = Inr False \<and>
   (length buf mod 8 = 0 \<longrightarrow>
      (\<exists>wfrs. TBFTLVWriteableFlashRegions_init buf = TBFTLVWriteableFlashRegions False (Some wfrs) \<and>
         length wfrs = length buf div 8 \<and>
         (\<forall>i < length wfrs.
            wfrs ! i = (le_int (take 4 (drop (i * 8) buf)),
                        le_int (take 4 (drop (i * 8 + 4) buf))))))"
  by (simp add: TBFTLVWriteableFlashRegions_init_def length_wfr_loop wfr_loop_nth)

theorem wfr_init_never_valid_witness:
  "length [1, 0, 0, 0, 2, 0, 0, 0 :: byte] mod 8 = 0 \<and>
   tlv_valid (TBFTLVWriteableFlashRegions_init [1, 0, 0, 0, 2, 0, 0, 0]) = Inr False \<and>
   TBFTLVWriteableFlashRegions_init [1, 0, 0, 0, 2, 0, 0, 0] =
     TBFTLVWriteableFlashRegions False (Some [(1, 2)])"
proof -
  have e: "TBFTLVWriteableFlashRegions_init [1, 0, 0, 0, 2, 0, 0, 0] =
             TBFTLVWriteableFlashRegions False (Some [(1, 2)])"
    by code_simp
  from wfr_init_never_valid [of "[1, 0, 0, 0, 2, 0, 0, 0]"] e show ?thesis by simp
qed

section \<open>Packing what was unpacked\<close>

lemma le_int_bound: "le_int bs < 256 ^ length bs"
proof (induction bs)
  case Nil
  show ?case by simp
next
  case (Cons b bs)
  have "uint b < 256" using uint_lt2p [of b] by simp
  moreover have "le_int bs + 1 \<le> 256 ^ length bs" using Cons.IH by simp
  then have "256 * (le_int bs + 1) \<le> 256 * 256 ^ length bs" by (rule mult_left_mono) simp
  ultimately show ?case by (simp add: algebra_simps)
qed

lemma word_of_int_le_step: "word_of_int (uint b + 256 * k) = (b :: byte)"
proof -
  have "(256 :: byte) = 0" by simp
  then have "(256 :: byte) * word_of_int k = 0" by (simp only: mult_zero_left)
  then show ?thesis by simp
qed

lemma le_step_div: "(uint (b :: byte) + 256 * k) div 256 = k"
proof -
  have "uint b < 256" using uint_lt2p [of b] by simp
  moreover have "0 \<le> uint b" by simp
  ultimately show ?thesis by simp
qed

lemma le_bytes_le_int: "le_bytes (length bs) (le_int bs) = bs"
  by (induction bs)
    (simp_all only: length_Cons list.size le_int.simps le_bytes.simps word_of_int_le_step
       le_step_div)

lemma length_le_bytes: "length (le_bytes n v) = n"
  by (induction n arbitrary: v) simp_all

lemma struct_pack_unpack:
  "length buf = sum_list fmt \<Longrightarrow> struct_pack fmt (unpack_fields fmt buf) = Inr buf"
proof (induction fmt arbitrary: buf)
  case Nil
  then show ?case by simp
next
  case (Cons w ws)
  have len: "length (take w buf) = w" using Cons.prems by simp
  have "le_int (take w buf) < 256 ^ w" using le_int_bound [of "take w buf"] len by simp
  moreover have "le_bytes w (le_int (take w buf)) = take w buf"
    using le_bytes_le_int [of "take w buf"] len by simp
  moreover have "struct_pack ws (unpack_fields ws (drop w buf)) = Inr (drop w buf)"
    using Cons.prems by (intro Cons.IH) simp
  ultimately show ?case by (simp add: le_int_nonneg)
qed

subsection \<open>UTF-8: encoding what was decoded\<close>

lemma div_mod_digit:
  fixes a c m :: nat
  assumes "c < m"
  shows "(a * m + c) div m = a" and "(a * m + c) mod m = c"
  using assms by simp_all

lemma enc2:
  assumes "194 \<le> b0" "b0 < 224" "cont b1" "cp = (b0 - 192) * 64 + (b1 - 128)"
  shows "\<not> cp < 128 \<and> cp < 2048 \<and> 192 + cp div 64 = b0 \<and> 128 + cp mod 64 = b1"
proof -
  define a c where "a = b0 - 192" and "c = b1 - 128"
  have a: "2 \<le> a" "a < 32" "b0 = 192 + a" and c: "c < 64" "b1 = 128 + c"
    using assms(1-3) by (auto simp: a_def c_def cont_def)
  have cp: "cp = a * 64 + c" using assms by (simp add: a_def c_def)
  have "cp div 64 = a" "cp mod 64 = c"
    unfolding cp using c(1) by (rule div_mod_digit)+
  moreover have "128 \<le> cp" "cp < 2048" using a c unfolding cp by linarith+
  ultimately show ?thesis using a c by simp
qed

lemma enc3:
  assumes "224 \<le> b0" "b0 < 240" "cont b1" "cont b2"
    "cp = (b0 - 224) * 4096 + (b1 - 128) * 64 + (b2 - 128)"
  shows "cp < 65536 \<and> 224 + cp div 4096 = b0 \<and> 128 + (cp div 64) mod 64 = b1 \<and>
         128 + cp mod 64 = b2"
proof -
  define a c1 c2 where "a = b0 - 224" and "c1 = b1 - 128" and "c2 = b2 - 128"
  have a: "a < 16" "b0 = 224 + a" and c1: "c1 < 64" "b1 = 128 + c1"
    and c2: "c2 < 64" "b2 = 128 + c2"
    using assms(1-4) by (auto simp: a_def c1_def c2_def cont_def)
  have cp: "cp = a * 4096 + c1 * 64 + c2" using assms by (simp add: a_def c1_def c2_def)
  have cp64: "cp = (a * 64 + c1) * 64 + c2" unfolding cp by simp
  have cp4096: "cp = a * 4096 + (c1 * 64 + c2)" unfolding cp by simp
  have low: "c1 * 64 + c2 < 4096" using c1 c2 by linarith
  have "cp div 64 = a * 64 + c1" "cp mod 64 = c2"
    unfolding cp64 using c2(1) by (rule div_mod_digit)+
  moreover have "(a * 64 + c1) mod 64 = c1" using c1(1) by (rule div_mod_digit)
  moreover have "cp div 4096 = a" unfolding cp4096 using low by (rule div_mod_digit)
  moreover have "cp < 65536" using a c1 c2 unfolding cp by linarith
  ultimately show ?thesis using a c1 c2 by simp
qed

lemma enc4:
  assumes "240 \<le> b0" "b0 < 245" "cont b1" "cont b2" "cont b3"
    "cp = (b0 - 240) * 262144 + (b1 - 128) * 4096 + (b2 - 128) * 64 + (b3 - 128)"
  shows "240 + cp div 262144 = b0 \<and> 128 + (cp div 4096) mod 64 = b1 \<and>
         128 + (cp div 64) mod 64 = b2 \<and> 128 + cp mod 64 = b3"
proof -
  define a c1 c2 c3 where "a = b0 - 240" and "c1 = b1 - 128" and "c2 = b2 - 128"
    and "c3 = b3 - 128"
  have a: "b0 = 240 + a" and c1: "c1 < 64" "b1 = 128 + c1"
    and c2: "c2 < 64" "b2 = 128 + c2" and c3: "c3 < 64" "b3 = 128 + c3"
    using assms(1-5) by (auto simp: a_def c1_def c2_def c3_def cont_def)
  have cp: "cp = a * 262144 + c1 * 4096 + c2 * 64 + c3"
    using assms by (simp add: a_def c1_def c2_def c3_def)
  have cp64: "cp = (a * 4096 + c1 * 64 + c2) * 64 + c3" unfolding cp by simp
  have cp4096: "cp = (a * 64 + c1) * 4096 + (c2 * 64 + c3)" unfolding cp by simp
  have cp262144: "cp = a * 262144 + (c1 * 4096 + c2 * 64 + c3)" unfolding cp by simp
  have low2: "c2 * 64 + c3 < 4096" using c2 c3 by linarith
  have low3: "c1 * 4096 + c2 * 64 + c3 < 262144" using c1 c2 c3 by linarith
  have "cp div 64 = a * 4096 + c1 * 64 + c2" "cp mod 64 = c3"
    unfolding cp64 using c3(1) by (rule div_mod_digit)+
  moreover have "(a * 4096 + c1 * 64 + c2) mod 64 = c2"
    using div_mod_digit(2) [OF c2(1), of "a * 64 + c1"] by (simp add: algebra_simps)
  moreover have "cp div 4096 = a * 64 + c1" unfolding cp4096 using low2 by (rule div_mod_digit)
  moreover have "(a * 64 + c1) mod 64 = c1" using c1(1) by (rule div_mod_digit)
  moreover have "cp div 262144 = a" unfolding cp262144 using low3 by (rule div_mod_digit)
  ultimately show ?thesis using a c1 c2 c3 by simp
qed


lemma utf8_encode_decode: "utf8_decode bs = Some cps \<Longrightarrow> utf8_encode cps = Some bs"
proof (induction bs arbitrary: cps rule: utf8_decode.induct)
  case 1
  then show ?case by simp
next
  case (2 b0 bs)
  consider (one) "b0 < 128" | (two) "194 \<le> b0" "b0 < 224" | (three) "224 \<le> b0" "b0 < 240"
    | (four) "240 \<le> b0" "b0 < 245" | (bad) "128 \<le> b0" "b0 < 194" | (high) "245 \<le> b0"
    by linarith
  then show ?case
  proof cases
    case one
    with "2.prems" obtain r where r: "utf8_decode bs = Some r" "cps = b0 # r" by auto
    from "2.IH"(1) [OF one r(1)] one r(2) show ?thesis by simp
  next
    case two
    with "2.prems" obtain b1 rest r where
      bs: "bs = b1 # rest" and c: "cont b1" and r: "utf8_decode rest = Some r"
      and cps: "cps = ((b0 - 192) * 64 + (b1 - 128)) # r"
      by (auto split: list.splits if_splits)
    have n1: "\<not> b0 < 128" using two by simp
    have ih: "utf8_encode r = Some rest"
      using "2.IH"(2) [OF n1 _ bs c r] two by simp
    define cp where "cp = (b0 - 192) * 64 + (b1 - 128)"
    from enc2 [OF two c cp_def] ih have "utf8_encode (cp # r) = Some (b0 # b1 # rest)"
      by simp
    then show ?thesis unfolding cps bs cp_def .
  next
    case three
    from three "2.prems" obtain b1 b2 rest r where
      bs: "bs = b1 # b2 # rest" and c: "cont b1" "cont b2" and r: "utf8_decode rest = Some r"
      and rng: "2048 \<le> (b0 - 224) * 4096 + (b1 - 128) * 64 + (b2 - 128)"
        "\<not> (55296 \<le> (b0 - 224) * 4096 + (b1 - 128) * 64 + (b2 - 128) \<and>
            (b0 - 224) * 4096 + (b1 - 128) * 64 + (b2 - 128) < 57344)"
      and cps: "cps = ((b0 - 224) * 4096 + (b1 - 128) * 64 + (b2 - 128)) # r"
      by (auto split: list.splits if_splits simp: Let_def)
    have n1: "\<not> b0 < 128" and n2: "\<not> (194 \<le> b0 \<and> b0 < 224)" using three by simp_all
    have ih: "utf8_encode r = Some rest"
      by (rule "2.IH"(3) [OF n1 n2 _ bs refl refl _ r]) (use three c rng in simp_all)
    define cp where "cp = (b0 - 224) * 4096 + (b1 - 128) * 64 + (b2 - 128)"
    from enc3 [OF three c cp_def] rng [folded cp_def] ih
    have "utf8_encode (cp # r) = Some (b0 # b1 # b2 # rest)"
      by simp
    then show ?thesis unfolding cps bs cp_def .
  next
    case four
    from four "2.prems" obtain b1 b2 b3 rest r where
      bs: "bs = b1 # b2 # b3 # rest" and c: "cont b1" "cont b2" "cont b3"
      and r: "utf8_decode rest = Some r"
      and rng: "65536 \<le> (b0 - 240) * 262144 + (b1 - 128) * 4096 + (b2 - 128) * 64 + (b3 - 128)"
        "(b0 - 240) * 262144 + (b1 - 128) * 4096 + (b2 - 128) * 64 + (b3 - 128) < 1114112"
      and cps: "cps = ((b0 - 240) * 262144 + (b1 - 128) * 4096 + (b2 - 128) * 64 + (b3 - 128)) # r"
      by (auto split: list.splits if_splits simp: Let_def)
    have n1: "\<not> b0 < 128" and n2: "\<not> (194 \<le> b0 \<and> b0 < 224)"
      and n3: "\<not> (224 \<le> b0 \<and> b0 < 240)" using four by simp_all
    have ih: "utf8_encode r = Some rest"
      by (rule "2.IH"(4) [OF n1 n2 n3 _ bs refl refl refl _ r]) (use four c rng in simp_all)
    define cp where
      "cp = (b0 - 240) * 262144 + (b1 - 128) * 4096 + (b2 - 128) * 64 + (b3 - 128)"
    from enc4 [OF four c cp_def] rng [folded cp_def] ih
    have "utf8_encode (cp # r) = Some (b0 # b1 # b2 # b3 # rest)"
      by simp
    then show ?thesis unfolding cps bs cp_def .
  next
    case bad
    with "2.prems" show ?thesis by simp
  next
    case high
    with "2.prems" show ?thesis by simp
  qed
qed

subsection \<open>Serialising a TLV that was just parsed\<close>

lemma str_encode_decode: "bytes_decode buf = Inr s \<Longrightarrow> str_encode s = Inr buf"
proof -
  assume "bytes_decode buf = Inr s"
  then have "utf8_decode (map unat buf) = Some s"
    by (simp add: bytes_decode_def split: option.splits)
  then have "utf8_encode s = Some (map unat buf)" by (rule utf8_encode_decode)
  then show ?thesis by (simp add: str_encode_def comp_def)
qed

lemma nths2: assumes "length (base :: int list) = 2" shows "[base ! 0, base ! 1] = base"
proof -
  from assms obtain a b where "base = [a, b]"
    by (auto simp: eval_nat_numeral length_Suc_conv)
  then show ?thesis by simp
qed

lemma nths3:
  assumes "length (base :: int list) = 3" shows "[base ! 0, base ! 1, base ! 2] = base"
proof -
  from assms obtain a b c where "base = [a, b, c]"
    by (auto simp: eval_nat_numeral length_Suc_conv)
  then show ?thesis by simp
qed

lemma nths5:
  assumes "length (base :: int list) = 5"
  shows "[base ! 0, base ! 1, base ! 2, base ! 3, base ! 4] = base"
proof -
  from assms obtain a b c d e where "base = [a, b, c, d, e]"
    by (auto simp: eval_nat_numeral length_Suc_conv)
  then show ?thesis by simp
qed

lemma nths10:
  assumes "length (base :: int list) = 10"
  shows "[base ! 0, base ! 1, base ! 2, base ! 3, base ! 4, base ! 5, base ! 6, base ! 7,
          base ! 8, base ! 9] = base"
proof -
  from assms obtain a b c d e f g h i j where "base = [a, b, c, d, e, f, g, h, i, j]"
    by (auto simp: eval_nat_numeral length_Suc_conv)
  then show ?thesis by simp
qed

lemma struct_pack_prefixed:
  assumes "length body = sum_list fmt" "0 \<le> t" "t < 65536" "0 \<le> l" "l < 65536"
  shows "struct_pack (2 # 2 # fmt) ([t, l] @ unpack_fields fmt body) =
           Inr (le_bytes 2 t @ le_bytes 2 l @ body)"
  using assms by (simp add: struct_pack_unpack)

lemma pack_main_init:
  assumes "length body = 12"
  shows "pack (TBFTLVMain_init body) = Inr (le_bytes 2 1 @ le_bytes 2 12 @ body)"
proof -
  define base where "base = unpack_fields [4, 4, 4] body"
  have l: "[base ! 0, base ! 1, base ! 2] = base"
    by (rule nths3) (simp add: base_def length_unpack_fields)
  have "pack (TBFTLVMain_init body) =
          struct_pack [2, 2, 4, 4, 4] ([1, 12] @ [base ! 0, base ! 1, base ! 2])"
    unfolding TBFTLVMain_init_def Let_def base_def [symmetric] using assms by simp
  also have "\<dots> = struct_pack [2, 2, 4, 4, 4] ([1, 12] @ base)" by (simp only: l)
  also have "\<dots> = Inr (le_bytes 2 1 @ le_bytes 2 12 @ body)"
    unfolding base_def by (rule struct_pack_prefixed) (simp_all add: assms)
  finally show ?thesis .
qed

lemma pack_program_init:
  assumes "length body = 20"
  shows "pack (TBFTLVProgram_init body) = Inr (le_bytes 2 9 @ le_bytes 2 20 @ body)"
proof -
  define base where "base = unpack_fields [4, 4, 4, 4, 4] body"
  have l: "[base ! 0, base ! 1, base ! 2, base ! 3, base ! 4] = base"
    by (rule nths5) (simp add: base_def length_unpack_fields)
  have "pack (TBFTLVProgram_init body) =
          struct_pack [2, 2, 4, 4, 4, 4, 4]
            ([9, 20] @ [base ! 0, base ! 1, base ! 2, base ! 3, base ! 4])"
    unfolding TBFTLVProgram_init_def Let_def base_def [symmetric] using assms by simp
  also have "\<dots> = struct_pack [2, 2, 4, 4, 4, 4, 4] ([9, 20] @ base)" by (simp only: l)
  also have "\<dots> = Inr (le_bytes 2 9 @ le_bytes 2 20 @ body)"
    unfolding base_def by (rule struct_pack_prefixed) (simp_all add: assms)
  finally show ?thesis .
qed

lemma pack_pic_option_1_init:
  assumes "length body = 40"
  shows "pack (TBFTLVPicOption1_init body) = Inr (le_bytes 2 4 @ le_bytes 2 40 @ body)"
proof -
  define base where "base = unpack_fields [4, 4, 4, 4, 4, 4, 4, 4, 4, 4] body"
  have l: "[base ! 0, base ! 1, base ! 2, base ! 3, base ! 4, base ! 5, base ! 6, base ! 7,
            base ! 8, base ! 9] = base"
    by (rule nths10) (simp add: base_def length_unpack_fields)
  have "pack (TBFTLVPicOption1_init body) =
          struct_pack [2, 2, 4, 4, 4, 4, 4, 4, 4, 4, 4, 4]
            ([4, 40] @ [base ! 0, base ! 1, base ! 2, base ! 3, base ! 4, base ! 5, base ! 6,
                        base ! 7, base ! 8, base ! 9])"
    unfolding TBFTLVPicOption1_init_def Let_def base_def [symmetric] using assms by simp
  also have "\<dots> = struct_pack [2, 2, 4, 4, 4, 4, 4, 4, 4, 4, 4, 4] ([4, 40] @ base)"
    by (simp only: l)
  also have "\<dots> = Inr (le_bytes 2 4 @ le_bytes 2 40 @ body)"
    unfolding base_def by (rule struct_pack_prefixed) (simp_all add: assms)
  finally show ?thesis .
qed

lemma pack_fixed_address_init:
  assumes "length body = 8"
  shows "pack (TBFTLVFixedAddress_init body) = Inr (le_bytes 2 5 @ le_bytes 2 8 @ body)"
proof -
  define base where "base = unpack_fields [4, 4] body"
  have l: "[base ! 0, base ! 1] = base"
    by (rule nths2) (simp add: base_def length_unpack_fields)
  have "pack (TBFTLVFixedAddress_init body) =
          struct_pack [2, 2, 4, 4] ([5, 8] @ [base ! 0, base ! 1])"
    unfolding TBFTLVFixedAddress_init_def Let_def base_def [symmetric] using assms by simp
  also have "\<dots> = struct_pack [2, 2, 4, 4] ([5, 8] @ base)" by (simp only: l)
  also have "\<dots> = Inr (le_bytes 2 5 @ le_bytes 2 8 @ body)"
    unfolding base_def by (rule struct_pack_prefixed) (simp_all add: assms)
  finally show ?thesis .
qed

lemma pack_kernel_version_init:
  assumes "length body = 4"
  shows "pack (TBFTLVKernelVersion_init body) = Inr (le_bytes 2 8 @ le_bytes 2 4 @ body)"
proof -
  define base where "base = unpack_fields [2, 2] body"
  have l: "[base ! 0, base ! 1] = base"
    by (rule nths2) (simp add: base_def length_unpack_fields)
  have "pack (TBFTLVKernelVersion_init body) =
          struct_pack [2, 2, 2, 2] ([8, 4] @ [base ! 0, base ! 1])"
    unfolding TBFTLVKernelVersion_init_def Let_def base_def [symmetric] using assms by simp
  also have "\<dots> = struct_pack [2, 2, 2, 2] ([8, 4] @ base)" by (simp only: l)
  also have "\<dots> = Inr (le_bytes 2 8 @ le_bytes 2 4 @ body)"
    unfolding base_def by (rule struct_pack_prefixed) (simp_all add: assms)
  finally show ?thesis .
qed

lemma roundup_4_cases:
  "roundup x 4 mod 4 = 0 \<and> x \<le> roundup x 4 \<and> roundup x 4 < x + 4"
proof (cases "x mod 4 = 0")
  case True
  then show ?thesis by (simp add: roundup_def)
next
  case False
  define r where "r = x mod 4"
  have "0 \<le> x mod 4" "x mod 4 < 4" by simp_all
  with False have r: "0 < r" "r < 4" unfolding r_def by linarith+
  define q where "q = x div 4"
  have x: "x = 4 * q + r" by (simp add: r_def q_def)
  have ru: "roundup x 4 = x + 4 - r" using False by (simp add: roundup_def r_def)
  have "x + 4 - r = 4 * (q + 1)" unfolding x by simp
  moreover have "(4 * (q + 1)) mod 4 = 0" by simp
  ultimately have "(x + 4 - r) mod 4 = 0" by (simp only:)
  with r show ?thesis unfolding ru by simp
qed

lemma roundup_4_padding:
  "nat (roundup (int n) 4) - n = (4 - (4 + n) mod 4) mod 4"
proof -
  define r where "r = n mod 4"
  have r4: "r < 4" by (simp add: r_def)
  have m: "(4 + n) mod 4 = r" by (simp add: r_def)
  have im: "int n mod 4 = int r" by (simp add: r_def zmod_int)
  show ?thesis
  proof (cases "r = 0")
    case True
    with im show ?thesis unfolding m by (simp add: roundup_def)
  next
    case False
    with im r4 have "roundup (int n) 4 = int n + 4 - int r" by (simp add: roundup_def)
    then have "nat (roundup (int n) 4) - n = 4 - r" using r4 by linarith
    moreover have "(4 - r) mod 4 = 4 - r" using False r4 by simp
    ultimately show ?thesis unfolding m by simp
  qed
qed

lemma roundup_4_fixed: "x mod 4 = 0 \<Longrightarrow> roundup x 4 = x"
  by (simp add: roundup_def)

lemma pack_unknown:
  assumes "0 \<le> t" "t < 65536" "length body < 65536"
  shows "pack (TBFTLVUnknown t body) =
           Inr (le_bytes 2 t @ le_bytes 2 (int (length body)) @ body @
                replicate (nat (roundup (int (length body)) 4) - length body) 0)"
  using assms by (simp add: length_le_bytes roundup_4_padding)

lemma pack_package_name:
  assumes "bytes_decode body = Inr s" "length body < 65536"
  shows "pack (TBFTLVPackageName v s) =
           Inr (le_bytes 2 3 @ le_bytes 2 (int (length body)) @ body @
                replicate (nat (roundup (int (length body)) 4) - length body) 0)"
proof -
  have enc: "str_encode s = Inr body" using assms(1) by (rule str_encode_decode)
  have ge: "int (length body) \<le> roundup (int (length body)) 4" by (rule roundup_4_ge)
  then have "nat (roundup (int (length body)) 4 - int (length body)) =
               nat (roundup (int (length body)) 4) - length body" by linarith
  with ge show ?thesis using assms(2) by (simp add: enc Let_def)
qed

lemma wfr_pack_append:
  "wfr_pack (xs @ ys) =
     (case wfr_pack xs of
        Inl e \<Rightarrow> Inl e
      | Inr a \<Rightarrow> (case wfr_pack ys of Inl e \<Rightarrow> Inl e | Inr b \<Rightarrow> Inr (a @ b)))"
  by (induction xs) (simp_all split: sum.splits)

lemma wfr_pack_one:
  assumes "k + 8 \<le> length body"
  shows "wfr_pack [(le_int (take 4 (drop k body)), le_int (take 4 (drop (k + 4) body)))] =
           Inr (take 8 (drop k body))"
proof -
  define x where "x = take 8 (drop k body)"
  have len: "length x = 8" using assms by (simp add: x_def)
  have "unpack_fields [4, 4] x =
          [le_int (take 4 (drop k body)), le_int (take 4 (drop (k + 4) body))]"
    by (simp add: x_def take_drop add.commute)
  moreover have "struct_pack [4, 4] (unpack_fields [4, 4] x) = Inr x"
    by (rule struct_pack_unpack) (simp add: len)
  ultimately have "struct_pack [4, 4]
      [le_int (take 4 (drop k body)), le_int (take 4 (drop (k + 4) body))] = Inr x" by simp
  then show ?thesis unfolding x_def by (simp del: struct_pack.simps)
qed

lemma wfr_pack_loop:
  "n * 8 \<le> length body \<Longrightarrow> wfr_pack (wfr_loop n body) = Inr (take (n * 8) body)"
proof (induction n)
  case 0
  show ?case by simp
next
  case (Suc n)
  have one: "wfr_pack [(le_int (take 4 (drop (n * 8) body)),
                         le_int (take 4 (drop (n * 8 + 4) body)))] =
               Inr (take 8 (drop (n * 8) body))"
    by (rule wfr_pack_one) (use Suc.prems in simp)
  have "take (n * 8) body @ take 8 (drop (n * 8) body) = take (Suc n * 8) body"
    by (simp add: take_add [symmetric] add.commute)
  with Suc one show ?case
    by (simp add: wfr_pack_append del: wfr_pack.simps)
qed

lemma pack_wfr_init:
  assumes "length body mod 8 = 0" "length body < 65536"
  shows "pack (TBFTLVWriteableFlashRegions_init body) =
           Inr (le_bytes 2 2 @ le_bytes 2 (int (length body)) @ body)"
proof -
  have eq: "length body div 8 * 8 = length body" using assms(1) by auto
  have "wfr_pack (wfr_loop (length body div 8) body) = Inr body"
    using wfr_pack_loop [of "length body div 8" body] eq by simp
  moreover have "int (length body div 8) * 8 = int (length body)"
    using eq by (metis of_nat_mult of_nat_numeral)
  ultimately show ?thesis
    using assms by (simp add: TBFTLVWriteableFlashRegions_init_def length_wfr_loop)
qed

lemma binary_ok_inits:
  "length body = 12 \<Longrightarrow> binary_ok (TBFTLVMain_init body)"
  "length body = 20 \<Longrightarrow> binary_ok (TBFTLVProgram_init body)"
  "binary_ok (TBFTLVWriteableFlashRegions_init body)"
  "binary_ok (TBFTLVPackageName v s)"
  "binary_ok (TBFTLVPicOption1_init body)"
  "binary_ok (TBFTLVFixedAddress_init body)"
  "binary_ok (TBFTLVKernelVersion_init body)"
  "t \<noteq> 1 \<Longrightarrow> t \<noteq> 9 \<Longrightarrow> binary_ok (TBFTLVUnknown t body)"
  by (simp_all add: binary_ok_def HEADER_TYPE_defs TBFTLVMain_init_def TBFTLVProgram_init_def
        TBFTLVWriteableFlashRegions_init_def TBFTLVPicOption1_init_def
        TBFTLVFixedAddress_init_def TBFTLVKernelVersion_init_def Let_def)

lemma parse_tlv_wf:
  assumes wf: "wf_tlv tipe body" and body: "body = take len buf" and len: "len \<le> length buf"
    "len < 65536" and tipe: "0 \<le> tipe" "tipe < 65536" and rem: "int len \<le> remaining"
  shows "\<exists>t. parse_tlv tipe (int len) remaining buf ts = Inr (ts @ [t]) \<and>
             pack t = Inr (le_bytes 2 tipe @ le_bytes 2 (int len) @ body @
                           replicate (nat (roundup (int len) 4) - len) 0) \<and>
             binary_ok t"
proof -
  have lb: "length body = len" using body len(1) by simp
  consider (main) "tipe = 1" | (program) "tipe = 9" | (wfr) "tipe = 2" | (name) "tipe = 3"
    | (pic) "tipe = 4" | (fixed) "tipe = 5" | (kernel) "tipe = 8"
    | (unknown) "tipe \<notin> {1, 2, 3, 4, 5, 8, 9}" by auto
  then show ?thesis
  proof cases
    case main
    with wf lb have l: "len = 12" by (simp add: wf_tlv_def HEADER_TYPE_defs)
    then have r: "roundup (int len) 4 = int len" by (simp add: roundup_def)
    have "length body = 12" using lb l by simp
    note pack_main_init [OF this] binary_ok_inits(1) [OF this]
    then show ?thesis using main l r rem body
      by (simp add: parse_tlv_def HEADER_TYPE_defs)
  next
    case program
    with wf lb have l: "len = 20" by (simp add: wf_tlv_def HEADER_TYPE_defs)
    then have r: "roundup (int len) 4 = int len" by (simp add: roundup_def)
    have "length body = 20" using lb l by simp
    note pack_program_init [OF this] binary_ok_inits(2) [OF this]
    then show ?thesis using program l r rem body
      by (simp add: parse_tlv_def HEADER_TYPE_defs)
  next
    case wfr
    with wf lb have l: "len mod 8 = 0" by (simp add: wf_tlv_def HEADER_TYPE_defs)
    then have "int len mod 4 = 0" by presburger
    then have r: "roundup (int len) 4 = int len" by (simp add: roundup_def)
    have "length body mod 8 = 0" "length body < 65536" using lb l len(2) by simp_all
    note pack_wfr_init [OF this] binary_ok_inits(3) [of body]
    then show ?thesis using wfr lb r rem body
      by (simp add: parse_tlv_def HEADER_TYPE_defs)
  next
    case name
    with wf obtain s where s: "bytes_decode body = Inr s"
      by (auto simp: wf_tlv_def HEADER_TYPE_defs bytes_decode_def split: option.splits)
    have "length body < 65536" using lb len(2) by simp
    from pack_package_name [OF s this, of True]
    have k: "pack (TBFTLVPackageName True s) =
               Inr (le_bytes 2 tipe @ le_bytes 2 (int len) @ body @
                    replicate (nat (roundup (int len) 4) - len) 0)"
      unfolding lb name .
    have "parse_tlv tipe (int len) remaining buf ts = Inr (ts @ [TBFTLVPackageName True s])"
      using name rem body s
      by (simp add: parse_tlv_def HEADER_TYPE_defs TBFTLVPackageName_init_def)
    with k binary_ok_inits(4) [of True s] show ?thesis by blast
  next
    case pic
    with wf lb have l: "len = 40" by (simp add: wf_tlv_def HEADER_TYPE_defs)
    then have r: "roundup (int len) 4 = int len" by (simp add: roundup_def)
    have "length body = 40" using lb l by simp
    note pack_pic_option_1_init [OF this] binary_ok_inits(5) [of body]
    then show ?thesis using pic l r rem body
      by (simp add: parse_tlv_def HEADER_TYPE_defs)
  next
    case fixed
    with wf lb have l: "len = 8" by (simp add: wf_tlv_def HEADER_TYPE_defs)
    then have r: "roundup (int len) 4 = int len" by (simp add: roundup_def)
    have "length body = 8" using lb l by simp
    note pack_fixed_address_init [OF this] binary_ok_inits(6) [of body]
    then show ?thesis using fixed l r rem body
      by (simp add: parse_tlv_def HEADER_TYPE_defs)
  next
    case kernel
    with wf lb have l: "len = 4" by (simp add: wf_tlv_def HEADER_TYPE_defs)
    then have r: "roundup (int len) 4 = int len" by (simp add: roundup_def)
    have "length body = 4" using lb l by simp
    note pack_kernel_version_init [OF this] binary_ok_inits(7) [of body]
    then show ?thesis using kernel l r rem body
      by (simp add: parse_tlv_def HEADER_TYPE_defs)
  next
    case unknown
    have "length body < 65536" using lb len(2) by simp
    from pack_unknown [OF tipe this]
    have k: "pack (TBFTLVUnknown tipe body) =
               Inr (le_bytes 2 tipe @ le_bytes 2 (int len) @ body @
                    replicate (nat (roundup (int len) 4) - len) 0)"
      unfolding lb .
    have b: "binary_ok (TBFTLVUnknown tipe body)"
      using unknown by (intro binary_ok_inits(8)) simp_all
    have "parse_tlv tipe (int len) remaining buf ts = Inr (ts @ [TBFTLVUnknown tipe body])"
      using unknown body by (simp add: parse_tlv_def HEADER_TYPE_defs)
    with k b show ?thesis by blast
  qed
qed

subsection \<open>The parse loop on a well-formed stream\<close>

lemma take_chunks:
  assumes "len \<le> padded"
  shows "take 2 bs @ take 2 (drop 2 bs) @ take len (drop 4 bs) @
           take (padded - len) (drop (4 + len) bs) = take (4 + padded) bs"
proof -
  have "4 + padded = 2 + (2 + (len + (padded - len)))" using assms by linarith
  then have "take (4 + padded) bs = take (2 + (2 + (len + (padded - len)))) bs"
    by (simp only:)
  also have "\<dots> = take 2 bs @ take 2 (drop 2 bs) @ take len (drop 4 bs) @
                   take (padded - len) (drop (4 + len) bs)"
    by (simp only: take_add drop_drop) (simp add: add.commute)
  finally show ?thesis by simp
qed

lemma le_int_2_bound: "length bs = 2 \<Longrightarrow> le_int bs < 65536"
  using le_int_bound [of bs] by simp

lemma le_bytes_2_le_int: "length bs = 2 \<Longrightarrow> le_bytes 2 (le_int bs) = bs"
  using le_bytes_le_int [of bs] by simp

lemma struct_unpack_prefix:
  assumes "length bs \<ge> 4"
  shows "struct_unpack [2, 2] (take 4 bs) = Inr [le_int (take 2 bs), le_int (take 2 (drop 2 bs))]"
  using assms by (simp add: struct_unpack_def take_drop)

lemma parse_loop_step:
  assumes "remaining \<ge> 4" "struct_unpack [2, 2] (take 4 buf) = Inr [tipe, len]"
    "parse_tlv tipe len (remaining - 4) (drop 4 buf) ts = Inr ts'"
  shows "parse_loop remaining buf ts =
           parse_loop (remaining - 4 - roundup len 4)
             (drop (nat (roundup len 4)) (drop 4 buf)) ts'"
  by (subst parse_loop.simps) (simp add: assms)

lemma parse_loop_done: "remaining < 4 \<Longrightarrow> parse_loop remaining buf ts = Inr ts"
  by (subst parse_loop.simps) simp

lemma parse_loop_wf:
  "wf_tlv_stream bs \<Longrightarrow>
     \<exists>ts'. parse_loop (int (length bs)) bs ts = Inr (ts @ ts') \<and> pack_all ts' = Inr bs \<and>
           list_all binary_ok ts'"
proof (induction "length bs" arbitrary: bs ts rule: less_induct)
  case less
  show ?case
  proof (cases "bs = []")
    case True
    then show ?thesis by (simp add: parse_loop_done)
  next
    case False
    define tipe where "tipe = le_int (take 2 bs)"
    define len where "len = nat (le_int (take 2 (drop 2 bs)))"
    define padded where "padded = nat (roundup (int len) 4)"
    from less.prems False have
      l4: "4 \<le> length bs" and fits: "4 + padded \<le> length bs"
      and wf: "wf_tlv tipe (take len (drop 4 bs))"
      and zeros: "take (padded - len) (drop (4 + len) bs) = replicate (padded - len) 0"
      and rest: "wf_tlv_stream (drop (4 + padded) bs)"
      by (subst (asm) wf_tlv_stream.simps;
          simp add: Let_def tipe_def len_def padded_def split: if_splits)+
    have ilen: "int len = le_int (take 2 (drop 2 bs))"
      by (simp add: len_def le_int_nonneg)
    have lp: "len \<le> padded" "int padded = roundup (int len) 4"
      using roundup_4_ge [of "int len"] by (simp_all add: padded_def)
    have tb: "0 \<le> tipe" "tipe < 65536"
      using l4 by (simp_all add: tipe_def le_int_nonneg le_int_2_bound)
    have lb: "len < 65536"
      using l4 le_int_2_bound [of "take 2 (drop 2 bs)"] ilen by simp
    have un: "struct_unpack [2, 2] (take 4 bs) = Inr [tipe, int len]"
      using struct_unpack_prefix [OF l4] by (simp add: tipe_def ilen)
    have c1: "len \<le> length (drop 4 bs)" using fits lp by simp
    have c2: "int len \<le> int (length bs) - 4" using fits lp by simp
    from parse_tlv_wf [OF wf refl c1 lb tb c2, of ts] obtain t where
      pt: "parse_tlv tipe (int len) (int (length bs) - 4) (drop 4 bs) ts = Inr (ts @ [t])"
      and pk: "pack t = Inr (le_bytes 2 tipe @ le_bytes 2 (int len) @ take len (drop 4 bs) @
                            replicate (padded - len) 0)"
      and ok: "binary_ok t"
      unfolding padded_def by blast
    have chunk: "le_bytes 2 tipe @ le_bytes 2 (int len) @ take len (drop 4 bs) @
                   replicate (padded - len) 0 = take (4 + padded) bs"
    proof -
      have "le_bytes 2 tipe = take 2 bs"
        unfolding tipe_def using l4 by (intro le_bytes_2_le_int) simp
      moreover have "le_bytes 2 (int len) = take 2 (drop 2 bs)"
        unfolding ilen using l4 by (intro le_bytes_2_le_int) simp
      ultimately show ?thesis
        using take_chunks [OF lp(1), of bs] by (simp only: zeros [symmetric])
    qed
    have step: "parse_loop (int (length bs)) bs ts =
                  parse_loop (int (length (drop (4 + padded) bs))) (drop (4 + padded) bs)
                    (ts @ [t])"
    proof -
      have "int (length (drop (4 + padded) bs)) = int (length bs) - 4 - roundup (int len) 4"
        using fits lp(2) by simp
      moreover have "drop (nat (roundup (int len) 4)) (drop 4 bs) = drop (4 + padded) bs"
        by (simp add: padded_def add.commute)
      ultimately show ?thesis
        using parse_loop_step [OF _ un pt] l4 by simp
    qed
    have "length (drop (4 + padded) bs) < length bs" using l4 by simp
    from less.hyps [OF this rest, of "ts @ [t]"] obtain ts'' where
      r: "parse_loop (int (length (drop (4 + padded) bs))) (drop (4 + padded) bs) (ts @ [t]) =
            Inr ((ts @ [t]) @ ts'')"
      "pack_all ts'' = Inr (drop (4 + padded) bs)" "list_all binary_ok ts''"
      by blast
    have "parse_loop (int (length bs)) bs ts = Inr (ts @ t # ts'')"
      using step r(1) by simp
    moreover have "pack_all (t # ts'') = Inr bs"
      using pk r(2) chunk by simp
    moreover have "list_all binary_ok (t # ts'')" using ok r(3) by simp
    ultimately show ?thesis by blast
  qed
qed

section \<open>The constructor on a version-2 buffer\<close>

lemma unpack_base_fields:
  assumes "length b \<ge> 16"
  shows "unpack_fields [2, 4, 4, 4] (take 14 (drop 2 b)) =
           [header_size_of b, le_int (take 4 (drop 4 b)), le_int (take 4 (drop 8 b)),
            stored_checksum b]"
  using assms by (simp add: header_size_of_def stored_checksum_def take_drop)

lemma zero_checksum_field:
  assumes "16 \<le> hs" "hs \<le> int (length b)"
  shows "struct_pack_into [4] (take (nat hs) b) 12 [0] =
           Inr (take 12 b @ [0, 0, 0, 0] @ drop 16 (take (nat hs) b))"
proof -
  have "le_bytes 4 0 = [0, 0, 0, 0]" by (simp add: numeral_eq_Suc)
  moreover have "min (length b) (nat hs) = nat hs" "12 \<le> nat hs" "16 \<le> nat hs"
    using assms by simp_all
  ultimately show ?thesis by (simp add: struct_pack_into_def)
qed

lemma TBFHeader_init_v2:
  assumes len: "length b \<ge> 16" and v: "le_int (take 2 b) = 2"
  shows "TBFHeader_init b =
           (if header_size_of b \<le> int (length b) \<and> 16 \<le> header_size_of b then
              (if 16 < header_size_of b then
                 (case parse_loop (header_size_of b - 16) (drop 16 b) [] of
                    Inl e \<Rightarrow> Inl e
                  | Inr ts \<Rightarrow> Inr ((v2_base b)\<lparr>app := True, tlvs := ts, valid := True\<rparr>))
               else Inr ((v2_base b)\<lparr>valid := (computed_checksum b = stored_checksum b)\<rparr>))
            else Inr (v2_base b))"
proof -
  define h1 where "h1 = \<lparr>valid = False, app = False, modified = False,
                          fields_dict = Map.empty, tlvs = [], version = Some (2::int)\<rparr>"
  have l14: "14 \<le> length b - 2" "\<not> length b < 2" using len by linarith+
  have init: "TBFHeader_init b = init_v2 b h1"
    using v l14 by (simp add: TBFHeader_init_def h1_def Let_def)
  have base: "h1\<lparr>fields_dict := set_fields (fields_dict h1)
                 [''header_size'', ''total_size'', ''flags'', ''checksum'']
                 (unpack_fields [2, 4, 4, 4] (take 14 (drop 2 b)))\<rparr> = v2_base b"
    unfolding unpack_base_fields [OF len] by (simp add: h1_def v2_base_def)
  have n0: "unpack_fields [2, 4, 4, 4] (take 14 (drop 2 b)) ! 0 = header_size_of b"
    and n3: "unpack_fields [2, 4, 4, 4] (take 14 (drop 2 b)) ! 3 = stored_checksum b"
    unfolding unpack_base_fields [OF len] by simp_all
  show ?thesis
  proof (cases "header_size_of b \<le> int (length b) \<and> 16 \<le> header_size_of b")
    case False
    then show ?thesis unfolding init init_v2_def Let_def base n0 n3 by auto
  next
    case True
    then have z: "struct_pack_into [4] (take (nat (header_size_of b)) b) 12 [0] =
                    Inr (take 12 b @ [0, 0, 0, 0] @
                         drop 16 (take (nat (header_size_of b)) b))"
      by (intro zero_checksum_field) simp_all
    have l: "header_size_of b - 16 \<le> int (length (drop 14 (drop 2 b)))"
      using True len by simp
    have d: "drop 14 (drop 2 b) = drop 16 b" by simp
    have t: "tlvs (v2_base b) = []" "(v2_base b)\<lparr>valid := False\<rparr> = v2_base b"
      by (simp_all add: v2_base_def)
    show ?thesis
      unfolding init init_v2_def Let_def base n0 n3 z
      using True l
      by (simp add: computed_checksum_def d t split: sum.splits)
  qed
qed

subsection \<open>Validity and the checksum\<close>

lemma parse_tlv_errors:
  "parse_tlv tipe len remaining buf ts = Inl e \<Longrightarrow> e = UnicodeDecodeError"
  by (auto simp: parse_tlv_def TBFTLVPackageName_init_def bytes_decode_def
           split: if_splits sum.splits option.splits)

lemma parse_loop_errors:
  "remaining \<le> int (length buf) \<Longrightarrow> parse_loop remaining buf ts = Inl e \<Longrightarrow>
     e = UnicodeDecodeError"
proof (induction remaining buf ts rule: parse_loop.induct)
  case (1 remaining buf ts)
  show ?case
  proof (cases "4 \<le> remaining")
    case False
    with "1.prems"(2) show ?thesis by (simp add: parse_loop_done)
  next
    case True
    with "1.prems"(1) have l4: "4 \<le> length buf" by simp
    define tipe len where "tipe = le_int (take 2 buf)" and "len = le_int (take 2 (drop 2 buf))"
    have un: "struct_unpack [2, 2] (take 4 buf) = Inr [tipe, len]"
      using struct_unpack_prefix [OF l4] by (simp add: tipe_def len_def)
    have r0: "0 \<le> roundup len 4"
      using roundup_4_ge [of len] le_int_nonneg [of "take 2 (drop 2 buf)"]
      by (simp add: len_def)
    show ?thesis
    proof (cases "parse_tlv tipe len (remaining - 4) (drop 4 buf) ts")
      case (Inl e')
      with "1.prems"(2) True un have "e = e'"
        by (subst (asm) parse_loop.simps) simp
      with Inl show ?thesis using parse_tlv_errors by blast
    next
      case (Inr ts')
      have inv: "remaining - 4 - roundup len 4
                   \<le> int (length (drop (nat (roundup len 4)) (drop 4 buf)))"
        using "1.prems"(1) r0 by simp
      have "parse_loop (remaining - 4 - roundup len 4)
              (drop (nat (roundup len 4)) (drop 4 buf)) ts' = Inl e"
        using parse_loop_step [OF True un Inr] "1.prems"(2) by simp
      with "1.IH" [OF True un, of ts'] Inr inv show ?thesis by simp
    qed
  qed
qed

lemma parse_tlv_raises_iff:
  "(\<exists>e. parse_tlv tipe len remaining buf ts = Inl e) \<longleftrightarrow>
     tipe = HEADER_TYPE_PACKAGE_NAME \<and> len \<le> remaining \<and>
     utf8_decode (map unat (take (nat len) buf)) = None"
  by (auto simp: parse_tlv_def TBFTLVPackageName_init_def bytes_decode_def HEADER_TYPE_defs
           split: if_splits sum.splits option.splits)

lemma parse_loop_returns_iff:
  "remaining \<le> int (length buf) \<Longrightarrow>
     (\<exists>ts'. parse_loop remaining buf ts = Inr ts') \<longleftrightarrow> names_decodable remaining buf"
proof (induction remaining buf ts rule: parse_loop.induct)
  case (1 remaining buf ts)
  show ?case
  proof (cases "4 \<le> remaining")
    case False
    then show ?thesis
      by (subst names_decodable.simps) (simp add: parse_loop_done)
  next
    case True
    with "1.prems" have l4: "4 \<le> length buf" by simp
    define tipe len where "tipe = le_int (take 2 buf)" and "len = le_int (take 2 (drop 2 buf))"
    have un: "struct_unpack [2, 2] (take 4 buf) = Inr [tipe, len]"
      using struct_unpack_prefix [OF l4] by (simp add: tipe_def len_def)
    have r0: "0 \<le> roundup len 4"
      using roundup_4_ge [of len] le_int_nonneg [of "take 2 (drop 2 buf)"]
      by (simp add: len_def)
    have nd: "names_decodable remaining buf \<longleftrightarrow>
                (tipe = HEADER_TYPE_PACKAGE_NAME \<and> len \<le> remaining - 4 \<longrightarrow>
                   utf8_decode (map unat (take (nat len) (drop 4 buf))) \<noteq> None) \<and>
                names_decodable (remaining - 4 - roundup len 4)
                  (drop (nat (roundup len 4)) (drop 4 buf))"
      using True by (subst names_decodable.simps) (simp add: Let_def tipe_def len_def)
    show ?thesis
    proof (cases "parse_tlv tipe len (remaining - 4) (drop 4 buf) ts")
      case (Inl e)
      then have "parse_loop remaining buf ts = Inl e"
        using True un by (subst parse_loop.simps) simp
      moreover from Inl parse_tlv_raises_iff [of tipe len "remaining - 4" "drop 4 buf" ts]
      have "tipe = HEADER_TYPE_PACKAGE_NAME \<and> len \<le> remaining - 4 \<and>
            utf8_decode (map unat (take (nat len) (drop 4 buf))) = None" by blast
      ultimately show ?thesis using nd by simp
    next
      case (Inr ts')
      have inv: "remaining - 4 - roundup len 4
                   \<le> int (length (drop (nat (roundup len 4)) (drop 4 buf)))"
        using "1.prems" r0 by simp
      from Inr parse_tlv_raises_iff [of tipe len "remaining - 4" "drop 4 buf" ts]
      have ok: "tipe = HEADER_TYPE_PACKAGE_NAME \<and> len \<le> remaining - 4 \<longrightarrow>
                  utf8_decode (map unat (take (nat len) (drop 4 buf))) \<noteq> None"
        by auto
      have ih: "(\<exists>ts''. parse_loop (remaining - 4 - roundup len 4)
                        (drop (nat (roundup len 4)) (drop 4 buf)) ts' = Inr ts'') \<longleftrightarrow>
              names_decodable (remaining - 4 - roundup len 4)
                (drop (nat (roundup len 4)) (drop 4 buf))"
        using "1.IH" [OF True un, of ts'] Inr inv by simp
      then show ?thesis
        using parse_loop_step [OF True un Inr] nd ok by simp
    qed
  qed
qed

text \<open>
  Claim C3, as stated: on a checksum mismatch the header of an application slot is marked
  valid all the same. \<open>bad_name_buffer\<close> is an application slot whose stored checksum differs
  from the computed one; its package name is not UTF-8, and the constructor raises
  \<open>UnicodeDecodeError\<close> instead of returning a header.
\<close>

theorem checksum_mismatch_counterexample:
  "16 \<le> length bad_name_buffer \<and> le_int (take 2 bad_name_buffer) = 2 \<and>
   16 < header_size_of bad_name_buffer \<and>
   header_size_of bad_name_buffer \<le> int (length bad_name_buffer) \<and>
   computed_checksum bad_name_buffer \<noteq> stored_checksum bad_name_buffer \<and>
   map_sum id valid (TBFHeader_init bad_name_buffer) = Inl UnicodeDecodeError"
  by code_simp

text \<open>
  Claim C3, amended. Take a version-2 buffer whose header size is at least 16 and at most
  the length of the buffer, and whose stored checksum differs from the checksum computed
  over the first \<open>header_size\<close> bytes with the checksum word zeroed. If the header size is 16
  (a padding slot), the constructor returns a header that is not valid. If it is larger (an
  application slot) and every package name in the TLV stream is valid UTF-8, the constructor
  returns a header that is marked valid all the same. If some package name is not valid
  UTF-8, the constructor raises \<open>UnicodeDecodeError\<close>.
\<close>

theorem checksum_mismatch_validity:
  "16 \<le> length b \<and> le_int (take 2 b) = 2 \<and>
   16 \<le> header_size_of b \<and> header_size_of b \<le> int (length b) \<and>
   computed_checksum b \<noteq> stored_checksum b \<longrightarrow>
     (header_size_of b = 16 \<longrightarrow> (\<exists>h. TBFHeader_init b = Inr h \<and> \<not> valid h \<and> \<not> app h)) \<and>
     (16 < header_size_of b \<and> names_decodable (header_size_of b - 16) (drop 16 b) \<longrightarrow>
        (\<exists>h. TBFHeader_init b = Inr h \<and> valid h \<and> app h)) \<and>
     (16 < header_size_of b \<and> \<not> names_decodable (header_size_of b - 16) (drop 16 b) \<longrightarrow>
        TBFHeader_init b = Inl UnicodeDecodeError)"
proof (intro impI conjI)
  assume a: "16 \<le> length b \<and> le_int (take 2 b) = 2 \<and>
   16 \<le> header_size_of b \<and> header_size_of b \<le> int (length b) \<and>
   computed_checksum b \<noteq> stored_checksum b"
  then have init: "TBFHeader_init b =
           (if 16 < header_size_of b then
                 (case parse_loop (header_size_of b - 16) (drop 16 b) [] of
                    Inl e \<Rightarrow> Inl e
                  | Inr ts \<Rightarrow> Inr ((v2_base b)\<lparr>app := True, tlvs := ts, valid := True\<rparr>))
               else Inr ((v2_base b)\<lparr>valid := False\<rparr>))"
    using TBFHeader_init_v2 [of b] by simp
  have inv: "header_size_of b - 16 \<le> int (length (drop 16 b))" using a by simp
  {
    assume "header_size_of b = 16"
    with init show "\<exists>h. TBFHeader_init b = Inr h \<and> \<not> valid h \<and> \<not> app h"
      by (simp add: v2_base_def)
  }
  {
    assume "16 < header_size_of b \<and> names_decodable (header_size_of b - 16) (drop 16 b)"
    with parse_loop_returns_iff [OF inv, of "[]"] obtain ts where
      "parse_loop (header_size_of b - 16) (drop 16 b) [] = Inr ts" and "16 < header_size_of b"
      by blast
    with init show "\<exists>h. TBFHeader_init b = Inr h \<and> valid h \<and> app h" by simp
  }
  {
    assume n: "16 < header_size_of b \<and>
               \<not> names_decodable (header_size_of b - 16) (drop 16 b)"
    with parse_loop_returns_iff [OF inv, of "[]"] obtain e where
      e: "parse_loop (header_size_of b - 16) (drop 16 b) [] = Inl e"
      by (cases "parse_loop (header_size_of b - 16) (drop 16 b) []") auto
    from parse_loop_errors [OF inv e] e init n
    show "TBFHeader_init b = Inl UnicodeDecodeError" by simp
  }
qed

theorem checksum_mismatch_validity_witness:
  "16 \<le> length bad_padding_buffer \<and> le_int (take 2 bad_padding_buffer) = 2 \<and>
   header_size_of bad_padding_buffer = 16 \<and>
   computed_checksum bad_padding_buffer \<noteq> stored_checksum bad_padding_buffer \<and>
   map_sum id valid (TBFHeader_init bad_padding_buffer) = Inr False \<and>
   16 \<le> length bad_main_buffer \<and> le_int (take 2 bad_main_buffer) = 2 \<and>
   header_size_of bad_main_buffer = 32 \<and> int (length bad_main_buffer) = 32 \<and>
   computed_checksum bad_main_buffer \<noteq> stored_checksum bad_main_buffer \<and>
   names_decodable (header_size_of bad_main_buffer - 16) (drop 16 bad_main_buffer) \<and>
   map_sum id valid (TBFHeader_init bad_main_buffer) = Inr True \<and>
   16 \<le> length bad_name_buffer \<and> le_int (take 2 bad_name_buffer) = 2 \<and>
   header_size_of bad_name_buffer = 24 \<and> int (length bad_name_buffer) = 24 \<and>
   computed_checksum bad_name_buffer \<noteq> stored_checksum bad_name_buffer \<and>
   \<not> names_decodable (header_size_of bad_name_buffer - 16) (drop 16 bad_name_buffer) \<and>
   TBFHeader_init bad_name_buffer = Inl UnicodeDecodeError \<and>
   16 \<le> length bad_blink_buffer \<and> le_int (take 2 bad_blink_buffer) = 2 \<and>
   header_size_of bad_blink_buffer = 28 \<and> int (length bad_blink_buffer) = 28 \<and>
   computed_checksum bad_blink_buffer \<noteq> stored_checksum bad_blink_buffer \<and>
   names_decodable (header_size_of bad_blink_buffer - 16) (drop 16 bad_blink_buffer) \<and>
   map_sum id valid (TBFHeader_init bad_blink_buffer) = Inr True"
proof -
  have k: "16 \<le> length bad_blink_buffer \<and> le_int (take 2 bad_blink_buffer) = 2 \<and>
           header_size_of bad_blink_buffer = 28 \<and> int (length bad_blink_buffer) = 28"
    by (simp add: bad_blink_buffer_def header_size_of_def)
  have kc: "computed_checksum bad_blink_buffer \<noteq> stored_checksum bad_blink_buffer"
    by code_simp
  have kn: "names_decodable (header_size_of bad_blink_buffer - 16) (drop 16 bad_blink_buffer)"
    by code_simp
  have p: "16 \<le> length bad_padding_buffer \<and> le_int (take 2 bad_padding_buffer) = 2 \<and>
           header_size_of bad_padding_buffer = 16"
    by (simp add: bad_padding_buffer_def header_size_of_def)
  have pc: "computed_checksum bad_padding_buffer \<noteq> stored_checksum bad_padding_buffer"
    by code_simp
  have m: "16 \<le> length bad_main_buffer \<and> le_int (take 2 bad_main_buffer) = 2 \<and>
           header_size_of bad_main_buffer = 32 \<and> int (length bad_main_buffer) = 32"
    by (simp add: bad_main_buffer_def header_size_of_def)
  have mc: "computed_checksum bad_main_buffer \<noteq> stored_checksum bad_main_buffer"
    by code_simp
  have mn: "names_decodable (header_size_of bad_main_buffer - 16) (drop 16 bad_main_buffer)"
    by code_simp
  have n: "16 \<le> length bad_name_buffer \<and> le_int (take 2 bad_name_buffer) = 2 \<and>
           header_size_of bad_name_buffer = 24 \<and> int (length bad_name_buffer) = 24"
    by (simp add: bad_name_buffer_def header_size_of_def)
  have nc: "computed_checksum bad_name_buffer \<noteq> stored_checksum bad_name_buffer"
    by code_simp
  have nn: "\<not> names_decodable (header_size_of bad_name_buffer - 16) (drop 16 bad_name_buffer)"
    by code_simp
  from checksum_mismatch_validity [of bad_padding_buffer] p pc
  have "map_sum id valid (TBFHeader_init bad_padding_buffer) = Inr False" by auto
  moreover from checksum_mismatch_validity [of bad_main_buffer] m mc mn
  have "map_sum id valid (TBFHeader_init bad_main_buffer) = Inr True" by auto
  moreover from checksum_mismatch_validity [of bad_name_buffer] n nc nn
  have "TBFHeader_init bad_name_buffer = Inl UnicodeDecodeError" by auto
  moreover from checksum_mismatch_validity [of bad_blink_buffer] k kc kn
  have "map_sum id valid (TBFHeader_init bad_blink_buffer) = Inr True" by auto
  ultimately show ?thesis using p pc m mc mn n nc nn k kc kn by simp
qed

subsection \<open>TLVs with an unexpected length\<close>

text \<open>
  Claim C8, as stated: a TLV of a recognised type whose declared length is not the expected
  one stays in the TLV sequence as a not-valid instance. The buffer \<open>short_main_buffer\<close> holds
  one TLV of type Main with the declared length 8; the header parsed from it has no TLV.
\<close>

theorem malformed_known_tlv_counterexample:
  "map_sum id tlvs (TBFHeader_init short_main_buffer) = Inr [] \<and>
   take 4 (drop 16 short_main_buffer) = [1, 0, 8, 0]"
  by code_simp

text \<open>
  Claim C8, amended. When the parse loop reads the prefix of a TLV of type Main, Program,
  PicOption1, FixedAddress or KernelVersion whose declared length is not the expected one,
  it appends nothing: the loop goes on with the same TLV sequence, past the declared length
  rounded up to four bytes. A Writeable Flash Regions TLV whose declared length fits in the
  rest of the header and is not a multiple of 8 is kept, at its position, as a not-valid
  instance of its class without fields.
\<close>

theorem malformed_known_tlv_discarded:
  "4 \<le> remaining \<and> struct_unpack [2, 2] (take 4 buf) = Inr [tipe, len] \<longrightarrow>
     ((tipe, expected) \<in> {(HEADER_TYPE_MAIN, 12), (HEADER_TYPE_PROGRAM, 20),
                            (HEADER_TYPE_PIC_OPTION_1, 40), (HEADER_TYPE_FIXED_ADDRESSES, 8),
                            (HEADER_TYPE_KERNEL_VERSION, 4)} \<and> len \<noteq> expected \<longrightarrow>
        parse_loop remaining buf ts =
          parse_loop (remaining - 4 - roundup len 4)
            (drop (nat (roundup len 4)) (drop 4 buf)) ts) \<and>
     (tipe = HEADER_TYPE_WRITEABLE_FLASH_REGIONS \<and> len mod 8 \<noteq> 0 \<and>
      len \<le> remaining - 4 \<and> remaining \<le> int (length buf) \<longrightarrow>
        parse_loop remaining buf ts =
          parse_loop (remaining - 4 - roundup len 4)
            (drop (nat (roundup len 4)) (drop 4 buf))
            (ts @ [TBFTLVWriteableFlashRegions False None]))"
proof (intro impI conjI)
  assume a: "4 \<le> remaining \<and> struct_unpack [2, 2] (take 4 buf) = Inr [tipe, len]"
  {
    assume "(tipe, expected) \<in> {(HEADER_TYPE_MAIN, 12), (HEADER_TYPE_PROGRAM, 20),
                            (HEADER_TYPE_PIC_OPTION_1, 40), (HEADER_TYPE_FIXED_ADDRESSES, 8),
                            (HEADER_TYPE_KERNEL_VERSION, 4)} \<and> len \<noteq> expected"
    then have "parse_tlv tipe len (remaining - 4) (drop 4 buf) ts = Inr ts"
      by (auto simp: parse_tlv_def HEADER_TYPE_defs)
    with a show "parse_loop remaining buf ts =
          parse_loop (remaining - 4 - roundup len 4)
            (drop (nat (roundup len 4)) (drop 4 buf)) ts"
      by (intro parse_loop_step) simp_all
  }
  {
    assume w: "tipe = HEADER_TYPE_WRITEABLE_FLASH_REGIONS \<and> len mod 8 \<noteq> 0 \<and>
      len \<le> remaining - 4 \<and> remaining \<le> int (length buf)"
    from a have "0 \<le> len" using struct_unpack_nth_nonneg [of "[2, 2]" "take 4 buf" _ 1] by simp
    with w have "nat len \<le> length buf - 4" by linarith
    then have l: "length (take (nat len) (drop 4 buf)) = nat len" by simp
    have "int (nat len mod 8) = len mod 8" using \<open>0 \<le> len\<close> by (simp add: zmod_int)
    with w have "int (nat len mod 8) \<noteq> 0" by simp
    then have "nat len mod 8 \<noteq> 0" by (simp only: of_nat_eq_0_iff not_False_eq_True)
    with l have "TBFTLVWriteableFlashRegions_init (take (nat len) (drop 4 buf)) =
                   TBFTLVWriteableFlashRegions False None"
      by (simp add: TBFTLVWriteableFlashRegions_init_def)
    with w have "parse_tlv tipe len (remaining - 4) (drop 4 buf) ts =
                   Inr (ts @ [TBFTLVWriteableFlashRegions False None])"
      by (simp add: parse_tlv_def HEADER_TYPE_defs)
    with a show "parse_loop remaining buf ts =
          parse_loop (remaining - 4 - roundup len 4)
            (drop (nat (roundup len 4)) (drop 4 buf))
            (ts @ [TBFTLVWriteableFlashRegions False None])"
      by (intro parse_loop_step) simp_all
  }
qed


theorem malformed_known_tlv_discarded_witness:
  "(4 :: int) \<le> 12 \<and>
   struct_unpack [2, 2] (take 4 (drop 16 short_main_buffer)) = Inr [HEADER_TYPE_MAIN, 8] \<and>
   parse_loop 12 (drop 16 short_main_buffer) [] = Inr [] \<and>
   struct_unpack [2, 2] (take 4 (drop 16 odd_wfr_buffer)) =
     Inr [HEADER_TYPE_WRITEABLE_FLASH_REGIONS, 4] \<and>
   (4 :: int) mod 8 \<noteq> 0 \<and> 8 \<le> int (length (drop 16 odd_wfr_buffer)) \<and>
   parse_loop 8 (drop 16 odd_wfr_buffer) [] = Inr [TBFTLVWriteableFlashRegions False None]"
proof -
  have u1: "struct_unpack [2, 2] (take 4 (drop 16 short_main_buffer)) =
              Inr [HEADER_TYPE_MAIN, 8]"
    by code_simp
  have u2: "struct_unpack [2, 2] (take 4 (drop 16 odd_wfr_buffer)) =
              Inr [HEADER_TYPE_WRITEABLE_FLASH_REGIONS, 4]"
    by code_simp
  have l2: "8 \<le> int (length (drop 16 odd_wfr_buffer))"
    by (simp add: odd_wfr_buffer_def)
  have r: "roundup 8 4 = 8" "roundup 4 4 = 4" by (simp_all add: roundup_def)
  from malformed_known_tlv_discarded
         [of 12 "drop 16 short_main_buffer" HEADER_TYPE_MAIN 8 12 "[]"] u1
  have "parse_loop 12 (drop 16 short_main_buffer) [] = Inr []"
    by (simp add: r parse_loop_done)
  moreover from malformed_known_tlv_discarded
         [of 8 "drop 16 odd_wfr_buffer" HEADER_TYPE_WRITEABLE_FLASH_REGIONS 4 0 "[]"] u2 l2
  have "parse_loop 8 (drop 16 odd_wfr_buffer) [] = Inr [TBFTLVWriteableFlashRegions False None]"
    by (simp add: r parse_loop_done)
  ultimately show ?thesis using u1 u2 l2 by simp
qed

subsection \<open>Serialising a header that was just parsed\<close>

lemma wf_tlv_stream_length: "wf_tlv_stream bs \<Longrightarrow> length bs mod 4 = 0"
proof (induction "length bs" arbitrary: bs rule: less_induct)
  case less
  show ?case
  proof (cases "bs = []")
    case True
    then show ?thesis by simp
  next
    case False
    define len where "len = nat (le_int (take 2 (drop 2 bs)))"
    define padded where "padded = nat (roundup (int len) 4)"
    from less.prems False have
      l4: "4 \<le> length bs" and fits: "4 + padded \<le> length bs"
      and rest: "wf_tlv_stream (drop (4 + padded) bs)"
      by (subst (asm) wf_tlv_stream.simps;
          simp add: Let_def len_def padded_def split: if_splits)+
    have "0 \<le> roundup (int len) 4" using roundup_4_ge [of "int len"] by linarith
    then have ip: "int padded = roundup (int len) 4" by (simp add: padded_def)
    have "int (padded mod 4) = roundup (int len) 4 mod 4" by (simp add: zmod_int ip)
    also have "\<dots> = 0" using roundup_4_cases [of "int len"] by simp
    finally have p4: "padded mod 4 = 0" by simp
    have "length (drop (4 + padded) bs) < length bs" using l4 by simp
    from less.hyps [OF this rest] have r4: "(length bs - (4 + padded)) mod 4 = 0" by simp
    have "length bs = (length bs - (4 + padded)) + padded + 4" using fits by simp
    then have "length bs mod 4 = ((length bs - (4 + padded)) + padded + 4) mod 4" by simp
    also have "\<dots> = 0" using r4 p4 by (simp add: mod_add_eq [symmetric])
    finally show ?thesis .
  qed
qed

lemma base_pack:
  assumes "16 \<le> length b" "le_int (take 2 b) = 2"
  shows "struct_pack [2, 2, 4, 4, 4]
           [2, header_size_of b, le_int (take 4 (drop 4 b)), le_int (take 4 (drop 8 b)), 0] =
         Inr (take 12 b @ [0, 0, 0, 0])"
proof -
  define x where "x = take 12 b @ [0, 0, 0, 0 :: byte]"
  have len: "length x = sum_list [2, 2, 4, 4, 4]" using assms(1) by (simp add: x_def)
  have "unpack_fields [2, 2, 4, 4, 4] x =
          [2, header_size_of b, le_int (take 4 (drop 4 b)), le_int (take 4 (drop 8 b)), 0]"
    using assms by (simp add: x_def header_size_of_def take_drop)
  with struct_pack_unpack [OF len] show ?thesis by (simp only: x_def)
qed

lemma attr_protected_size_cases:
  "attr_protected_size t = Inl AttributeError \<or> (\<exists>p. attr_protected_size t = Inr p)"
  by (cases t rule: attr_protected_size.cases) simp_all

lemma get_binary_tlv_ok:
  assumes "list_all binary_ok (tlvs h)" "get_binary_tlv h = Some t"
  shows "\<exists>p. attr_protected_size t = Inr p"
proof -
  from assms(2) have "t \<in> set (tlvs h)"
    and "get_tlvid t = HEADER_TYPE_PROGRAM \<or> get_tlvid t = HEADER_TYPE_MAIN"
    by (auto simp: get_binary_tlv_def get_tlv_def find_Some_iff split: option.splits)
  with assms(1) have "attr_protected_size t \<noteq> Inl AttributeError"
    by (auto simp: list_all_iff binary_ok_def)
  with attr_protected_size_cases [of t] show ?thesis by blast
qed

lemma protected_padding:
  assumes "list_all binary_ok (tlvs h)"
  shows "(case get_binary_tlv h of
            None \<Rightarrow> Inr buf
          | Some tlv_binary \<Rightarrow>
              (case attr_protected_size tlv_binary of
                 Inl e \<Rightarrow> Inl e
               | Inr psize \<Rightarrow>
                   if psize > 0 then Inr (buf @ replicate (nat psize) 0) else Inr buf)) =
         Inr (buf @ replicate (nat (protected_size_of h)) 0)"
proof (cases "get_binary_tlv h")
  case None
  then show ?thesis by (simp add: protected_size_of_def)
next
  case (Some t)
  with get_binary_tlv_ok [OF assms Some] show ?thesis
    by (auto simp: protected_size_of_def)
qed

lemma checksum_pad_aligned: "length buf mod 4 = 0 \<Longrightarrow> checksum_pad buf = buf"
  by (simp add: checksum_pad_def)

lemma get_binary_parsed:
  assumes len: "16 \<le> length b" and v: "le_int (take 2 b) = 2"
    and m4: "length b mod 4 = 0"
    and cs: "stored_checksum b = checksum_of (take 12 b @ [0, 0, 0, 0] @ drop 16 b)"
    and fd: "fields_dict h = fields_dict (v2_base b)" and ver: "version h = Some 2"
    and pk: "(if app h then pack_all (tlvs h) else Inr []) = Inr (drop 16 b)"
    and ok: "list_all binary_ok (tlvs h)"
  shows "get_binary h = Inr (b @ replicate (nat (protected_size_of h)) 0)"
proof -
  define buf where "buf = take 12 b @ [0, 0, 0, 0] @ drop 16 b"
  have lb: "length buf = length b" using len by (simp add: buf_def)
  have lk: "lookups (fields_dict h) [''header_size'', ''total_size'', ''flags''] =
              Inr [header_size_of b, le_int (take 4 (drop 4 b)), le_int (take 4 (drop 8 b))]"
    by (simp add: fd v2_base_def lookup_def)
  have pad: "checksum_pad buf = buf" using lb m4 by (simp add: checksum_pad_aligned)
  have st: "0 \<le> stored_checksum b" "stored_checksum b < 256 ^ 4"
    using le_int_bound [of "take 4 (drop 12 b)"] len
    by (simp_all add: stored_checksum_def le_int_nonneg)
  have lest: "le_bytes 4 (stored_checksum b) = take 4 (drop 12 b)"
    unfolding stored_checksum_def using le_bytes_le_int [of "take 4 (drop 12 b)"] len by simp
  have "take 12 b @ take 4 (drop 12 b) @ drop 16 b = b"
  proof -
    have "take 12 b @ take 4 (drop 12 b) = take 16 b"
      using take_add [of 12 4 b] by simp
    then show ?thesis by (metis append.assoc append_take_drop_id)
  qed
  then have into: "struct_pack_into [4] buf 12 [stored_checksum b] = Inr b"
    using st len lest by (simp add: struct_pack_into_def buf_def)
  have "get_binary_v2 h 2 =
          (case get_binary_tlv h of
            None \<Rightarrow> Inr b
          | Some tlv_binary \<Rightarrow>
              (case attr_protected_size tlv_binary of
                 Inl e \<Rightarrow> Inl e
               | Inr psize \<Rightarrow>
                   if psize > 0 then Inr (b @ replicate (nat psize) 0) else Inr b))"
    unfolding get_binary_v2_def lk
    using base_pack [OF len v] pk pad [unfolded buf_def] into [unfolded buf_def] cs
    by (simp add: Let_def del: struct_pack.simps)
  then show ?thesis using ver protected_padding [OF ok, of b] by (simp add: get_binary_def)
qed

text \<open>
  Claim C2, as stated: parsing a well-formed version-2 header buffer and serialising it
  again gives the buffer back. \<open>main_buffer\<close> is well-formed, and its Main TLV declares a
  protected size of 4: \<open>get_binary\<close> returns the 32 bytes of the buffer followed by four
  zero bytes.
\<close>

theorem roundtrip_counterexample:
  "wf_v2_header main_buffer \<and> repack main_buffer = Inr (main_buffer @ [0, 0, 0, 0]) \<and>
   repack main_buffer \<noteq> Inr main_buffer"
  by code_simp

text \<open>
  Claim C2, amended. For every well-formed version-2 header buffer, the constructor returns
  a header, and \<open>get_binary\<close> of that header is the buffer followed by as many zero bytes as
  the protected size of its Program (else Main) TLV; it is exactly the buffer when that size
  is 0 or the header has neither TLV.
\<close>

theorem roundtrip_with_protected_padding:
  "wf_v2_header b \<longrightarrow>
     (\<exists>h. TBFHeader_init b = Inr h \<and>
          repack b = Inr (b @ replicate (nat (protected_size_of h)) 0) \<and>
          (protected_size_of h = 0 \<longrightarrow> repack b = Inr b))"
proof
  assume wf: "wf_v2_header b"
  then have len: "16 \<le> length b" and v: "le_int (take 2 b) = 2"
    and hs: "header_size_of b = int (length b)"
    and cs0: "stored_checksum b = computed_checksum b"
    and st: "wf_tlv_stream (drop 16 b)"
    by (simp_all add: wf_v2_header_def)
  have cs: "stored_checksum b = checksum_of (take 12 b @ [0, 0, 0, 0] @ drop 16 b)"
    using cs0 hs by (simp add: computed_checksum_def)
  have "(length b - 16) mod 4 = 0" using wf_tlv_stream_length [OF st] by simp
  then have m4: "length b mod 4 = 0" using len by presburger
  from parse_loop_wf [OF st, of "[]"] obtain ts where
    pl: "parse_loop (int (length b) - 16) (drop 16 b) [] = Inr ts"
    and pk: "pack_all ts = Inr (drop 16 b)" and ok: "list_all binary_ok ts"
    using len by (auto simp: of_nat_diff)
  define h where "h = (if 16 < length b
                        then (v2_base b)\<lparr>app := True, tlvs := ts, valid := True\<rparr>
                        else (v2_base b)\<lparr>valid := True\<rparr>)"
  have init: "TBFHeader_init b = Inr h"
    using TBFHeader_init_v2 [OF len v] hs pl cs0 len by (auto simp: h_def)
  have "get_binary h = Inr (b @ replicate (nat (protected_size_of h)) 0)"
  proof (rule get_binary_parsed [OF len v m4 cs])
    show "fields_dict h = fields_dict (v2_base b)" by (simp add: h_def)
    show "version h = Some 2" by (simp add: h_def v2_base_def)
    show "(if app h then pack_all (tlvs h) else Inr []) = Inr (drop 16 b)"
      using pk len by (simp add: h_def v2_base_def)
    show "list_all binary_ok (tlvs h)" using ok by (simp add: h_def v2_base_def)
  qed
  with init have "repack b = Inr (b @ replicate (nat (protected_size_of h)) 0)"
    by (simp add: repack_def)
  with init show "\<exists>h. TBFHeader_init b = Inr h \<and>
          repack b = Inr (b @ replicate (nat (protected_size_of h)) 0) \<and>
          (protected_size_of h = 0 \<longrightarrow> repack b = Inr b)"
    by auto
qed

theorem roundtrip_with_protected_padding_witness:
  "wf_v2_header main_buffer \<and>
   map_sum id protected_size_of (TBFHeader_init main_buffer) = Inr 4 \<and>
   repack main_buffer = Inr (main_buffer @ replicate 4 0) \<and>
   wf_v2_header padding_buffer \<and>
   map_sum id protected_size_of (TBFHeader_init padding_buffer) = Inr 0 \<and>
   repack padding_buffer = Inr padding_buffer"
proof -
  have w1: "wf_v2_header main_buffer" by code_simp
  have p1: "map_sum id protected_size_of (TBFHeader_init main_buffer) = Inr 4" by code_simp
  have w2: "wf_v2_header padding_buffer" by code_simp
  have p2: "map_sum id protected_size_of (TBFHeader_init padding_buffer) = Inr 0" by code_simp
  from roundtrip_with_protected_padding [of main_buffer] w1 p1
  have "repack main_buffer = Inr (main_buffer @ replicate 4 0)" by auto
  moreover from roundtrip_with_protected_padding [of padding_buffer] w2 p2
  have "repack padding_buffer = Inr padding_buffer" by auto
  ultimately show ?thesis using w1 p1 w2 p2 by simp
qed

section \<open>The Credentials TLV\<close>

text \<open>
  What the constructor does for the three hash types: the flag is set when the body has 64,
  96 or 128 bytes.
\<close>

lemma credentials_hash_valid_code:
  assumes "length buf \<ge> 4" and "unpack_fields [4] (take 4 buf) ! 0 = ct"
    and "(ct, n) \<in> {(CREDENTIALS_TYPE_SHA256, 64), (CREDENTIALS_TYPE_SHA384, 96),
                     (CREDENTIALS_TYPE_SHA512, 128)}"
  shows "map_sum id cred_valid (TBFFooterTLVCredentials_init lib buf None) =
           Inr (length buf - 4 = n)"
  using assms
  by (auto simp: TBFFooterTLVCredentials_init_def verify_def CREDENTIALS_TYPE_defs Let_def)

text \<open>
  Claim C1. A Credentials TLV with the SHA256 tag should be valid exactly when its body has
  the 32 bytes of a SHA-256 digest. The constructor compares the length of the body with 64:
  for the tag followed by a body of 32 bytes it returns a credential whose valid flag is false.
\<close>

theorem credentials_sha256_digest_not_valid:
  "map_sum id cred_valid
     (TBFFooterTLVCredentials_init lib ([6, 0, 0, 0] @ replicate 32 171) None) = Inr False"
  by (simp add: TBFFooterTLVCredentials_init_def verify_def CREDENTIALS_TYPE_defs)

text \<open>
  Claim C9. For a credential of a hash type (SHA256, SHA384 or SHA512) holding the body \<open>b\<close>:
  without a covered blob \<open>verify\<close> returns the credential as it was, so \<open>verified\<close> stays
  \<open>unknown\<close>; with a blob, \<open>verified\<close> becomes \<open>yes\<close> when \<open>b\<close> is the digest of the blob under the
  matching algorithm and \<open>no\<close> when it is not.
\<close>

theorem verify_hash:
  "cred_buffer c = Some b \<and> credentials_type c = Some ct \<and>
   (ct, hash) \<in> {(CREDENTIALS_TYPE_SHA256, sha256 lib blob),
                  (CREDENTIALS_TYPE_SHA384, sha384 lib blob),
                  (CREDENTIALS_TYPE_SHA512, sha512 lib blob)} \<longrightarrow>
   verify lib keys None c = Inr c \<and>
   (b = hash \<longrightarrow> verify lib keys (Some blob) c = Inr (c\<lparr>verified := ''yes''\<rparr>)) \<and>
   (b \<noteq> hash \<longrightarrow> verify lib keys (Some blob) c = Inr (c\<lparr>verified := ''no''\<rparr>))"
  by (auto simp: verify_def check_hash_def CREDENTIALS_TYPE_defs)

theorem verify_hash_witness:
  "cred_buffer sha256_credential = Some (replicate 32 3) \<and>
   credentials_type sha256_credential = Some CREDENTIALS_TYPE_SHA256 \<and>
   sha256 toy_crypto [7, 8, 9] = replicate 32 3 \<and>
   sha256 toy_crypto [7, 8] \<noteq> replicate 32 3 \<and>
   verified sha256_credential = ''unknown'' \<and>
   verify toy_crypto [] None sha256_credential = Inr sha256_credential \<and>
   verify toy_crypto [] (Some [7, 8, 9]) sha256_credential =
     Inr (sha256_credential\<lparr>verified := ''yes''\<rparr>) \<and>
   verify toy_crypto [] (Some [7, 8]) sha256_credential =
     Inr (sha256_credential\<lparr>verified := ''no''\<rparr>)"
  using
    verify_hash [of sha256_credential "replicate 32 3" CREDENTIALS_TYPE_SHA256
                    "sha256 toy_crypto [7, 8, 9]" toy_crypto "[7, 8, 9]" "[]"]
    verify_hash [of sha256_credential "replicate 32 3" CREDENTIALS_TYPE_SHA256
                    "sha256 toy_crypto [7, 8]" toy_crypto "[7, 8]" "[]"]
  by (simp add: sha256_credential_def toy_crypto_def)

section \<open>The mutators\<close>

text \<open>
  Claim C7. Every mutating operation that changes the header should set \<open>modified\<close>.
  \<open>modify_tlv\<close> with id 0 changes a base field and leaves \<open>modified\<close> as it was: on the padding
  header it overwrites \<open>total_size\<close>, 512 before and 1024 after, and \<open>modified\<close> is still false.
\<close>

theorem modify_tlv_root_not_modified:
  "modify_tlv 0 ''total_size'' 1024 padding_header =
     Inr (padding_header\<lparr>fields_dict := (fields_dict padding_header)(''total_size'' \<mapsto> 1024)\<rparr>) \<and>
   fields_dict padding_header ''total_size'' = Some 512 \<and>
   modified
     (padding_header\<lparr>fields_dict := (fields_dict padding_header)(''total_size'' \<mapsto> 1024)\<rparr>) =
     False"
  by (simp add: modify_tlv_def padding_header_def)

subsection \<open>Headers of version 1 and headers that are not valid\<close>

lemma set_fields_other: "k \<notin> set ks \<Longrightarrow> set_fields m ks vs k = m k"
  by (induction m ks vs rule: set_fields.induct) auto

lemma init_v1_shape:
  assumes "init_v1 b h0 = Inr h" "tlvs h0 = []" "fields_dict h0 = Map.empty"
  shows "tlvs h = [] \<and> fields_dict h ''header_size'' = None"
proof -
  have "set_fields Map.empty v1_field_names vs ''header_size'' = None" for vs
    by (subst set_fields_other) (simp_all add: v1_field_names_def)
  with assms show ?thesis
    by (auto simp: init_v1_def Let_def split: sum.splits if_splits)
qed








subsection \<open>Updating the first TLV with an id\<close>

lemma update_first_at:
  "first_at tlvid ts i \<Longrightarrow>
     update_first tlvid f ts =
       (case f (ts ! i) of Inl e \<Rightarrow> Inl e | Inr t' \<Rightarrow> Inr (ts[i := t']))"
proof (induction ts arbitrary: i)
  case Nil
  then show ?case by (simp add: first_at_def)
next
  case (Cons t ts)
  show ?case
  proof (cases i)
    case 0
    with Cons.prems show ?thesis by (simp add: first_at_def split: sum.splits)
  next
    case (Suc k)
    with Cons.prems have t: "get_tlvid t \<noteq> tlvid" and k: "first_at tlvid ts k"
      by (auto simp: first_at_def)
    from Cons.IH [OF k] t Suc show ?thesis by (simp split: sum.splits)
  qed
qed

lemma update_first_absent:
  "find (\<lambda>t. get_tlvid t = tlvid) ts = None \<Longrightarrow> update_first tlvid f ts = Inr ts"
  by (induction ts) (auto split: if_splits)

lemma find_first_at:
  "find (\<lambda>t. get_tlvid t = tlvid) ts = Some t \<longleftrightarrow> (\<exists>i. first_at tlvid ts i \<and> ts ! i = t)"
  by (auto simp: find_Some_iff first_at_def)

lemma first_at_update:
  "first_at tlvid ts i \<Longrightarrow> get_tlvid t' = tlvid \<Longrightarrow> first_at tlvid (ts[i := t']) i"
  by (simp add: first_at_def)

lemma add_protected_size_grow:
  "attr_protected_size t = Inr p \<Longrightarrow>
     \<exists>t'. add_protected_size d t = Inr t' \<and> get_tlvid t' = get_tlvid t \<and>
          add_init_fn_offset d t' = Inr (grow_binary d t)"
  by (cases "(d, t)" rule: add_protected_size.cases) auto

lemma grow_binary_attrs:
  "attr_protected_size t = Inr p \<Longrightarrow>
     attr_protected_size (grow_binary d t) = Inr (p + d) \<and>
     attr_init_fn_offset (grow_binary d t) = map_sum id (\<lambda>x. x + d) (attr_init_fn_offset t) \<and>
     get_tlvid (grow_binary d t) = get_tlvid t"
  by (cases "(d, t)" rule: grow_binary.cases) auto

lemma binary_tlv_first_at:
  "get_binary_tlv h = Some t \<Longrightarrow> \<exists>i. first_at (binary_tlvid h) (tlvs h) i \<and> tlvs h ! i = t"
proof (cases "get_tlv h HEADER_TYPE_PROGRAM")
  case None
  assume "get_binary_tlv h = Some t"
  with None have "find (\<lambda>t. get_tlvid t = HEADER_TYPE_MAIN) (tlvs h) = Some t"
    by (simp add: get_binary_tlv_def get_tlv_def)
  with None show ?thesis by (simp add: binary_tlvid_def find_first_at)
next
  case (Some p)
  assume "get_binary_tlv h = Some t"
  with Some have "find (\<lambda>t. get_tlvid t = HEADER_TYPE_PROGRAM) (tlvs h) = Some t"
    by (simp add: get_binary_tlv_def get_tlv_def)
  with Some show ?thesis by (simp add: binary_tlvid_def find_first_at)
qed

subsection \<open>Adjusting the starting address\<close>

text \<open>
  Claim C5, as stated: below the fixed address, \<open>adjust_starting_address\<close> changes
  \<open>protected_size\<close> and nothing else, \<open>init_fn_offset\<close> included. On the example header, loaded
  at \<open>0x40000\<close> with the fixed flash address \<open>0x40080\<close>, the call adds 84 to \<open>protected_size\<close>
  and also to \<open>init_fn_offset\<close>, which was 32 and becomes 116.
\<close>

theorem adjust_starting_address_counterexample:
  "adjust_starting_address 262144 fixed_header =
     Inr (fixed_header
            \<lparr>tlvs := [TBFTLVMain True
                        (Some \<lparr>init_fn_offset = 116, protected_size = 84,
                               minimum_ram_size = 1024\<rparr>),
                      TBFTLVFixedAddress True
                        (Some \<lparr>fixed_address_ram = 536870912,
                               fixed_address_flash = 262272\<rparr>)]\<rparr>) \<and>
   map attr_init_fn_offset (tlvs fixed_header) = [Inr 32, Inl AttributeError]"
  by (simp add: adjust_starting_address_def fixed_header_def get_tlv_def get_binary_tlv_def
        binary_tlvid_def HEADER_TYPE_defs lookup_def)

text \<open>
  Claim C5, amended. Let the header have a Fixed Addresses TLV with flash address \<open>F\<close>, header
  size \<open>H\<close> and a Program (else Main) TLV with protected size \<open>P\<close>. If \<open>address + H + P < F\<close>, the
  call returns, and the only change is in that Program or Main TLV, whose \<open>protected_size\<close> and
  \<open>init_fn_offset\<close> have each grown by \<open>F - (address + H + P)\<close>: the base fields and every
  other TLV and attribute are as before. If \<open>address + H + P > F\<close>, the
  call raises \<open>TockLoaderException\<close> and the header is unchanged.
\<close>

theorem adjust_starting_address_grows:
  "get_tlv h HEADER_TYPE_FIXED_ADDRESSES = Some tlv_fixed_addr \<and>
   attr_fixed_address_flash tlv_fixed_addr = Inr F \<and>
   fields_dict h ''header_size'' = Some H \<and>
   get_binary_tlv h = Some tlv_program \<and>
   attr_protected_size tlv_program = Inr P \<longrightarrow>
     (address + H + P < F \<longrightarrow>
        (\<exists>i. first_at (binary_tlvid h) (tlvs h) i \<and> tlvs h ! i = tlv_program \<and>
           adjust_starting_address address h =
             Inr (h\<lparr>tlvs := (tlvs h)[i := grow_binary (F - (address + H + P)) tlv_program]\<rparr>))) \<and>
     (address + H + P > F \<longrightarrow>
        adjust_starting_address address h = Inl (TockLoaderException, h))"
proof (intro impI conjI)
  assume a: "get_tlv h HEADER_TYPE_FIXED_ADDRESSES = Some tlv_fixed_addr \<and>
   attr_fixed_address_flash tlv_fixed_addr = Inr F \<and>
   fields_dict h ''header_size'' = Some H \<and>
   get_binary_tlv h = Some tlv_program \<and>
   attr_protected_size tlv_program = Inr P"
  {
    assume lt: "address + H + P < F"
    define d where "d = F - (address + H + P)"
    from a obtain i where i: "first_at (binary_tlvid h) (tlvs h) i" "tlvs h ! i = tlv_program"
      using binary_tlv_first_at by blast
    from a obtain t' where t': "add_protected_size d tlv_program = Inr t'"
      "get_tlvid t' = get_tlvid tlv_program"
      "add_init_fn_offset d t' = Inr (grow_binary d tlv_program)"
      using add_protected_size_grow by blast
    from i have id: "get_tlvid tlv_program = binary_tlvid h" and len: "i < length (tlvs h)"
      by (auto simp: first_at_def)
    have u1: "update_first (binary_tlvid h) (add_protected_size d) (tlvs h) =
                Inr ((tlvs h)[i := t'])"
      using update_first_at [OF i(1)] i(2) t'(1) by simp
    have "first_at (binary_tlvid h) ((tlvs h)[i := t']) i"
      using first_at_update [OF i(1)] t'(2) id by simp
    then have u2: "update_first (binary_tlvid h) (add_init_fn_offset d) ((tlvs h)[i := t']) =
                 Inr ((tlvs h)[i := grow_binary d tlv_program])"
      using update_first_at [of "binary_tlvid h" "(tlvs h)[i := t']" i "add_init_fn_offset d"]
        t'(3) len by simp
    have "adjust_starting_address address h =
            Inr (h\<lparr>tlvs := (tlvs h)[i := grow_binary d tlv_program]\<rparr>)"
      using a lt u1 u2 by (simp add: adjust_starting_address_def lookup_def d_def)
    with i show "\<exists>i. first_at (binary_tlvid h) (tlvs h) i \<and> tlvs h ! i = tlv_program \<and>
           adjust_starting_address address h =
             Inr (h\<lparr>tlvs := (tlvs h)[i := grow_binary (F - (address + H + P)) tlv_program]\<rparr>)"
      unfolding d_def by blast
  }
  {
    assume "address + H + P > F"
    with a show "adjust_starting_address address h = Inl (TockLoaderException, h)"
      by (simp add: adjust_starting_address_def lookup_def)
  }
qed

theorem adjust_starting_address_grows_witness:
  "get_tlv fixed_header HEADER_TYPE_FIXED_ADDRESSES = Some (tlvs fixed_header ! 1) \<and>
   attr_fixed_address_flash (tlvs fixed_header ! 1) = Inr 262272 \<and>
   fields_dict fixed_header ''header_size'' = Some 44 \<and>
   get_binary_tlv fixed_header = Some (tlvs fixed_header ! 0) \<and>
   attr_protected_size (tlvs fixed_header ! 0) = Inr 0 \<and>
   (262144 :: int) + 44 + 0 < 262272 \<and> (262400 :: int) + 44 + 0 > 262272 \<and>
   adjust_starting_address 262144 fixed_header =
     Inr (fixed_header\<lparr>tlvs := (tlvs fixed_header)[0 := grow_binary 84 (tlvs fixed_header ! 0)]\<rparr>) \<and>
   adjust_starting_address 262400 fixed_header = Inl (TockLoaderException, fixed_header)"
proof -
  have hyps:
    "get_tlv fixed_header HEADER_TYPE_FIXED_ADDRESSES = Some (tlvs fixed_header ! 1) \<and>
     attr_fixed_address_flash (tlvs fixed_header ! 1) = Inr 262272 \<and>
     fields_dict fixed_header ''header_size'' = Some 44 \<and>
     get_binary_tlv fixed_header = Some (tlvs fixed_header ! 0) \<and>
     attr_protected_size (tlvs fixed_header ! 0) = Inr 0"
    by (simp add: fixed_header_def get_tlv_def get_binary_tlv_def HEADER_TYPE_defs)
  have first: "first_at (binary_tlvid fixed_header) (tlvs fixed_header) i \<longleftrightarrow> i = 0" for i
    by (auto simp: fixed_header_def first_at_def binary_tlvid_def get_tlv_def HEADER_TYPE_defs
          nth_Cons split: nat.splits)
  from hyps
    adjust_starting_address_grows
      [of fixed_header "tlvs fixed_header ! 1" 262272 44 "tlvs fixed_header ! 0" 0 262144]
    adjust_starting_address_grows
      [of fixed_header "tlvs fixed_header ! 1" 262272 44 "tlvs fixed_header ! 0" 0 262400]
  show ?thesis by (auto simp: first)
qed

subsection \<open>Deleting TLVs\<close>

lemma grow_ids [simp]:
  "get_tlvid (grow_protected d t) = get_tlvid t"
  "get_tlvid (grow_init d t) = get_tlvid t"
  "get_tlvid (grow_binary d t) = get_tlvid t"
  by (cases "(d, t)" rule: grow_binary.cases; simp)+

lemma grow_binary_split: "grow_init d (grow_protected d t) = grow_binary d t"
  by (cases "(d, t)" rule: grow_binary.cases) simp_all

lemma binary_ok_grow [simp]:
  "binary_ok (grow_protected d t) = binary_ok t"
  "binary_ok (grow_init d t) = binary_ok t"
  by (cases "(d, t)" rule: grow_binary.cases; simp add: binary_ok_def)+

lemma add_protected_size_ok:
  "binary_ok t \<Longrightarrow> get_tlvid t = HEADER_TYPE_MAIN \<or> get_tlvid t = HEADER_TYPE_PROGRAM \<Longrightarrow>
     add_protected_size d t = Inr (grow_protected d t) \<and>
     add_init_fn_offset d t = Inr (grow_init d t)"
  by (cases "(d, t)" rule: grow_binary.cases) (simp_all add: binary_ok_def HEADER_TYPE_defs)

lemma update_first_map_first:
  assumes "list_all binary_ok ts" "tlvid = HEADER_TYPE_MAIN \<or> tlvid = HEADER_TYPE_PROGRAM"
  shows "update_first tlvid (add_protected_size d) ts = Inr (map_first tlvid (grow_protected d) ts)"
    and "update_first tlvid (add_init_fn_offset d) ts = Inr (map_first tlvid (grow_init d) ts)"
  using assms by (induction ts) (auto simp: add_protected_size_ok)

lemma list_all_map_first:
  "(\<And>t. binary_ok (g t) = binary_ok t) \<Longrightarrow> list_all binary_ok ts \<Longrightarrow>
     list_all binary_ok (map_first tlvid g ts)"
  by (induction ts) simp_all

lemma map_first_twice:
  "(\<And>t. get_tlvid (g t) = get_tlvid t) \<Longrightarrow>
     map_first tlvid f (map_first tlvid g ts) = map_first tlvid (f \<circ> g) ts"
  by (induction ts) simp_all

lemma map_first_commute:
  assumes "a \<noteq> b" "\<And>t. get_tlvid (f t) = get_tlvid t" "\<And>t. get_tlvid (g t) = get_tlvid t"
  shows "map_first a f (map_first b g ts) = map_first b g (map_first a f ts)"
  using assms by (induction ts) auto

lemma find_map_first:
  "(\<And>t. get_tlvid (g t) = get_tlvid t) \<Longrightarrow>
     find (\<lambda>t. get_tlvid t = a) (map_first b g ts) =
       (if a = b then map_option g (find (\<lambda>t. get_tlvid t = a) ts)
        else find (\<lambda>t. get_tlvid t = a) ts)"
  by (induction ts) auto

lemma four_updates:
  assumes ok: "list_all binary_ok (tlvs h)"
  shows "apply_updates
           [(HEADER_TYPE_MAIN, add_protected_size d),
            (HEADER_TYPE_PROGRAM, add_protected_size d),
            (HEADER_TYPE_MAIN, add_init_fn_offset d),
            (HEADER_TYPE_PROGRAM, add_init_fn_offset d)] h =
         Inr (h\<lparr>tlvs := map_first HEADER_TYPE_PROGRAM (grow_binary d)
                           (map_first HEADER_TYPE_MAIN (grow_binary d) (tlvs h))\<rparr>)"
proof -
  define M P where "M = HEADER_TYPE_MAIN" and "P = HEADER_TYPE_PROGRAM"
  have ne: "M \<noteq> P" by (simp add: M_def P_def HEADER_TYPE_defs)
  define l1 where "l1 = map_first M (grow_protected d) (tlvs h)"
  define l2 where "l2 = map_first P (grow_protected d) l1"
  define l3 where "l3 = map_first M (grow_init d) l2"
  define l4 where "l4 = map_first P (grow_init d) l3"
  have ok1: "list_all binary_ok l1"
    unfolding l1_def using ok by (intro list_all_map_first) simp_all
  have ok2: "list_all binary_ok l2"
    unfolding l2_def using ok1 by (intro list_all_map_first) simp_all
  have ok3: "list_all binary_ok l3"
    unfolding l3_def using ok2 by (intro list_all_map_first) simp_all
  have u1: "update_first M (add_protected_size d) (tlvs h) = Inr l1"
    unfolding l1_def by (rule update_first_map_first [OF ok]) (simp add: M_def)
  have u2: "update_first P (add_protected_size d) l1 = Inr l2"
    unfolding l2_def by (rule update_first_map_first [OF ok1]) (simp add: P_def)
  have u3: "update_first M (add_init_fn_offset d) l2 = Inr l3"
    unfolding l3_def by (rule update_first_map_first [OF ok2]) (simp add: M_def)
  have u4: "update_first P (add_init_fn_offset d) l3 = Inr l4"
    unfolding l4_def by (rule update_first_map_first [OF ok3]) (simp add: P_def)
  have "l4 = map_first P (grow_init d) (map_first P (grow_protected d)
               (map_first M (grow_init d) (map_first M (grow_protected d) (tlvs h))))"
    unfolding l4_def l3_def l2_def l1_def
    using map_first_commute [OF ne, of "grow_init d" "grow_protected d"] by simp
  also have "\<dots> = map_first P (grow_binary d) (map_first M (grow_binary d) (tlvs h))"
    by (simp add: map_first_twice comp_def grow_binary_split)
  finally have l4: "l4 = map_first P (grow_binary d) (map_first M (grow_binary d) (tlvs h))" .
  show ?thesis
    using u1 u2 u3 u4 l4 by (simp add: M_def [symmetric] P_def [symmetric])
qed

text \<open>
  Every header that the constructor builds meets the condition on the TLVs with the id of
  Main or Program: the parse loop builds them from buffers of the right length only.
\<close>

lemma parse_tlv_binary_ok:
  assumes "list_all binary_ok ts" "parse_tlv tipe len remaining buf ts = Inr ts'"
    "remaining \<le> int (length buf)"
  shows "list_all binary_ok ts'"
proof -
  have m: "remaining \<ge> 12 \<Longrightarrow> length (take 12 buf) = 12"
    and p: "remaining \<ge> 20 \<Longrightarrow> length (take 20 buf) = 20"
    using assms(3) by simp_all
  consider (main) "tipe = 1" | (program) "tipe = 9" | (other) "tipe \<noteq> 1 \<and> tipe \<noteq> 9" by auto
  then show ?thesis
  proof cases
    case main
    with assms(1,2) m show ?thesis
      by (auto simp: parse_tlv_def HEADER_TYPE_defs binary_ok_inits(1) split: if_splits)
  next
    case program
    with assms(1,2) p show ?thesis
      by (auto simp: parse_tlv_def HEADER_TYPE_defs binary_ok_inits(2) split: if_splits)
  next
    case other
    with assms(1,2) show ?thesis
      by (auto simp: parse_tlv_def HEADER_TYPE_defs binary_ok_inits
            TBFTLVPackageName_init_def split: if_splits sum.splits)
  qed
qed

lemma parse_loop_binary_ok:
  "remaining \<le> int (length buf) \<Longrightarrow> list_all binary_ok ts \<Longrightarrow>
     parse_loop remaining buf ts = Inr ts' \<Longrightarrow> list_all binary_ok ts'"
proof (induction remaining buf ts rule: parse_loop.induct)
  case (1 remaining buf ts)
  show ?case
  proof (cases "4 \<le> remaining")
    case False
    with "1.prems" show ?thesis by (simp add: parse_loop_done)
  next
    case True
    with "1.prems"(1) have l4: "4 \<le> length buf" by simp
    define tipe len where "tipe = le_int (take 2 buf)" and "len = le_int (take 2 (drop 2 buf))"
    have un: "struct_unpack [2, 2] (take 4 buf) = Inr [tipe, len]"
      using struct_unpack_prefix [OF l4] by (simp add: tipe_def len_def)
    have r0: "0 \<le> roundup len 4"
      using roundup_4_ge [of len] le_int_nonneg [of "take 2 (drop 2 buf)"]
      by (simp add: len_def)
    show ?thesis
    proof (cases "parse_tlv tipe len (remaining - 4) (drop 4 buf) ts")
      case (Inl e)
      with "1.prems"(3) True un show ?thesis
        by (subst (asm) parse_loop.simps) simp
    next
      case (Inr ts1)
      have inv: "remaining - 4 - roundup len 4
                   \<le> int (length (drop (nat (roundup len 4)) (drop 4 buf)))"
        using "1.prems"(1) r0 by simp
      have ok1: "list_all binary_ok ts1"
        using parse_tlv_binary_ok [OF "1.prems"(2) Inr] "1.prems"(1) by simp
      have "parse_loop (remaining - 4 - roundup len 4)
              (drop (nat (roundup len 4)) (drop 4 buf)) ts1 = Inr ts'"
        using parse_loop_step [OF True un Inr] "1.prems"(3) by simp
      with "1.IH" [OF True un, of ts1] Inr inv ok1 show ?thesis by simp
    qed
  qed
qed

lemma init_binary_ok:
  assumes "TBFHeader_init b = Inr h"
  shows "list_all binary_ok (tlvs h)"
proof (cases "16 \<le> length b \<and> le_int (take 2 b) = 2")
  case True
  show ?thesis
  proof (cases "header_size_of b \<le> int (length b) \<and> 16 < header_size_of b")
    case False
    with True TBFHeader_init_v2 [of b] assms show ?thesis
      by (auto simp: v2_base_def split: if_splits)
  next
    case app: True
    with True TBFHeader_init_v2 [of b] assms obtain ts where
      ts: "parse_loop (header_size_of b - 16) (drop 16 b) [] = Inr ts" and "tlvs h = ts"
      by (auto split: sum.splits)
    have inv: "header_size_of b - 16 \<le> int (length (drop 16 b))" using app by simp
    have "list_all binary_ok ts"
      by (rule parse_loop_binary_ok [OF inv _ ts]) simp
    with \<open>tlvs h = ts\<close> show ?thesis by simp
  qed
next
  case False
  define h0 where "h0 = \<lparr>valid = False, app = False, modified = False,
                          fields_dict = Map.empty, tlvs = [], version = Some (1::int)\<rparr>"
  have v1: "tlvs h = []" if "init_v1 b h0 = Inr h"
    using init_v1_shape [OF that] by (simp add: h0_def)
  from False assms v1 show ?thesis
    by (auto simp: TBFHeader_init_def Let_def h0_def split: if_splits)
qed

lemma pop_middle: "pop (length pre) (pre @ t # ts) = pre @ ts"
  by (simp add: pop_def)

lemma delete_scan_spec:
  "map pack (filter (\<lambda>t. get_tlvid t = tlvid) ts) = map Inr bs \<Longrightarrow>
     \<exists>new. delete_scan tlvid ts (length pre) idx sz =
             Inr (new @ idx, sz + int (length (concat bs))) \<and>
           foldl (\<lambda>xs i. pop i xs) (pre @ ts) new =
             pre @ filter (\<lambda>t. get_tlvid t \<noteq> tlvid) ts \<and>
           (new = [] \<longleftrightarrow> bs = [])"
proof (induction ts arbitrary: pre idx sz bs)
  case Nil
  then show ?case by simp
next
  case (Cons t ts)
  show ?case
  proof (cases "get_tlvid t = tlvid")
    case True
    with Cons.prems obtain b bs' where bs: "bs = b # bs'" and b: "pack t = Inr b"
      and rest: "map pack (filter (\<lambda>t. get_tlvid t = tlvid) ts) = map Inr bs'"
      by (cases bs) auto
    from Cons.IH [OF rest, of "pre @ [t]" "length pre # idx" "sz + int (length b)"]
    obtain new where
      sc: "delete_scan tlvid ts (Suc (length pre)) (length pre # idx) (sz + int (length b)) =
             Inr (new @ length pre # idx, sz + int (length b) + int (length (concat bs')))"
      and pp: "foldl (\<lambda>xs i. pop i xs) (pre @ t # ts) new =
                 pre @ t # filter (\<lambda>t. get_tlvid t \<noteq> tlvid) ts"
      by auto
    have "delete_scan tlvid (t # ts) (length pre) idx sz =
            Inr ((new @ [length pre]) @ idx, sz + int (length (concat bs)))"
      using True b sc by (simp add: get_size_def bs)
    moreover have "foldl (\<lambda>xs i. pop i xs) (pre @ t # ts) (new @ [length pre]) =
                     pre @ filter (\<lambda>t. get_tlvid t \<noteq> tlvid) (t # ts)"
      using True pp by (simp add: pop_middle)
    ultimately show ?thesis using bs by blast
  next
    case False
    with Cons.prems have rest: "map pack (filter (\<lambda>t. get_tlvid t = tlvid) ts) = map Inr bs"
      by simp
    from Cons.IH [OF rest, of "pre @ [t]" idx sz] False show ?thesis by simp
  qed
qed

lemma delete_pops_spec:
  "delete_pops indices h =
     h\<lparr>tlvs := foldl (\<lambda>xs i. pop i xs) (tlvs h) indices,
       modified := (modified h \<or> indices \<noteq> [])\<rparr>"
  by (induction indices arbitrary: h) simp_all

text \<open>
  Claim C4. Let the header have a \<open>header_size\<close> field \<open>H\<close>, let every TLV with the id of Main
  or Program have the attributes of its class, and let the TLVs with id \<open>tlvid\<close> serialise to
  the byte strings \<open>bs\<close>, of total length \<open>s\<close>. Then \<open>delete_tlv\<close> returns, and the header differs
  in this only: the TLVs with that id are gone, the others keeping their order;
  \<open>header_size\<close> is \<open>H - s\<close>; the first remaining Main TLV and the first remaining Program TLV
  have \<open>protected_size\<close> and \<open>init_fn_offset\<close> each increased by \<open>s\<close>; \<open>modified\<close> is set if a
  TLV was removed.
\<close>

theorem delete_tlv_conservation:
  "fields_dict h ''header_size'' = Some H \<and> list_all binary_ok (tlvs h) \<and>
   map pack (filter (\<lambda>t. get_tlvid t = tlvid) (tlvs h)) = map Inr bs \<and>
   s = int (length (concat bs)) \<and>
   rest = filter (\<lambda>t. get_tlvid t \<noteq> tlvid) (tlvs h) \<longrightarrow>
     delete_tlv tlvid h =
       Inr (h\<lparr>tlvs := map_first HEADER_TYPE_PROGRAM (grow_binary s)
                         (map_first HEADER_TYPE_MAIN (grow_binary s) rest),
              fields_dict := (fields_dict h)(''header_size'' \<mapsto> H - s),
              modified := (modified h \<or> bs \<noteq> [])\<rparr>) \<and>
     find (\<lambda>t. get_tlvid t = HEADER_TYPE_MAIN)
       (map_first HEADER_TYPE_PROGRAM (grow_binary s)
          (map_first HEADER_TYPE_MAIN (grow_binary s) rest)) =
       map_option (grow_binary s) (find (\<lambda>t. get_tlvid t = HEADER_TYPE_MAIN) rest) \<and>
     find (\<lambda>t. get_tlvid t = HEADER_TYPE_PROGRAM)
       (map_first HEADER_TYPE_PROGRAM (grow_binary s)
          (map_first HEADER_TYPE_MAIN (grow_binary s) rest)) =
       map_option (grow_binary s) (find (\<lambda>t. get_tlvid t = HEADER_TYPE_PROGRAM) rest) \<and>
     (\<forall>t \<in> set rest.
        get_tlvid t = HEADER_TYPE_MAIN \<or> get_tlvid t = HEADER_TYPE_PROGRAM \<longrightarrow>
          (\<exists>p i. attr_protected_size t = Inr p \<and> attr_init_fn_offset t = Inr i \<and>
                 attr_protected_size (grow_binary s t) = Inr (p + s) \<and>
                 attr_init_fn_offset (grow_binary s t) = Inr (i + s)))"
proof (intro impI conjI)
  assume a: "fields_dict h ''header_size'' = Some H \<and> list_all binary_ok (tlvs h) \<and>
   map pack (filter (\<lambda>t. get_tlvid t = tlvid) (tlvs h)) = map Inr bs \<and>
   s = int (length (concat bs)) \<and>
   rest = filter (\<lambda>t. get_tlvid t \<noteq> tlvid) (tlvs h)"
  from a delete_scan_spec [of tlvid "tlvs h" bs "[]" "[]" 0] obtain new where
    sc: "delete_scan tlvid (tlvs h) 0 [] 0 = Inr (new, s)"
    and pp: "foldl (\<lambda>xs i. pop i xs) (tlvs h) new = rest" and nb: "new = [] \<longleftrightarrow> bs = []"
    by auto
  define h1 where "h1 = h\<lparr>tlvs := rest, modified := (modified h \<or> bs \<noteq> []),
                           fields_dict := (fields_dict h)(''header_size'' \<mapsto> H - s)\<rparr>"
  have ok: "list_all binary_ok (tlvs h1)"
    using a by (simp add: h1_def list_all_iff)
  have "delete_tlv tlvid h =
          apply_updates
            [(HEADER_TYPE_MAIN, add_protected_size s),
             (HEADER_TYPE_PROGRAM, add_protected_size s),
             (HEADER_TYPE_MAIN, add_init_fn_offset s),
             (HEADER_TYPE_PROGRAM, add_init_fn_offset s)] h1"
    using a sc pp nb
    by (simp add: delete_tlv_def delete_pops_spec h1_def Let_def del: apply_updates.simps)
  also note four_updates [OF ok, of s]
  finally show "delete_tlv tlvid h =
       Inr (h\<lparr>tlvs := map_first HEADER_TYPE_PROGRAM (grow_binary s)
                         (map_first HEADER_TYPE_MAIN (grow_binary s) rest),
              fields_dict := (fields_dict h)(''header_size'' \<mapsto> H - s),
              modified := (modified h \<or> bs \<noteq> [])\<rparr>)"
    by (simp add: h1_def)
  show "find (\<lambda>t. get_tlvid t = HEADER_TYPE_MAIN)
       (map_first HEADER_TYPE_PROGRAM (grow_binary s)
          (map_first HEADER_TYPE_MAIN (grow_binary s) rest)) =
       map_option (grow_binary s) (find (\<lambda>t. get_tlvid t = HEADER_TYPE_MAIN) rest)"
    by (simp add: find_map_first HEADER_TYPE_defs)
  show "find (\<lambda>t. get_tlvid t = HEADER_TYPE_PROGRAM)
       (map_first HEADER_TYPE_PROGRAM (grow_binary s)
          (map_first HEADER_TYPE_MAIN (grow_binary s) rest)) =
       map_option (grow_binary s) (find (\<lambda>t. get_tlvid t = HEADER_TYPE_PROGRAM) rest)"
    by (simp add: find_map_first HEADER_TYPE_defs)
  show "\<forall>t \<in> set rest.
        get_tlvid t = HEADER_TYPE_MAIN \<or> get_tlvid t = HEADER_TYPE_PROGRAM \<longrightarrow>
          (\<exists>p i. attr_protected_size t = Inr p \<and> attr_init_fn_offset t = Inr i \<and>
                 attr_protected_size (grow_binary s t) = Inr (p + s) \<and>
                 attr_init_fn_offset (grow_binary s t) = Inr (i + s))"
  proof (intro ballI impI)
    fix t assume t: "t \<in> set rest"
      and id: "get_tlvid t = HEADER_TYPE_MAIN \<or> get_tlvid t = HEADER_TYPE_PROGRAM"
    from t a have "binary_ok t" by (auto simp: list_all_iff)
    with id show "\<exists>p i. attr_protected_size t = Inr p \<and> attr_init_fn_offset t = Inr i \<and>
                 attr_protected_size (grow_binary s t) = Inr (p + s) \<and>
                 attr_init_fn_offset (grow_binary s t) = Inr (i + s)"
      by (cases "(s, t)" rule: grow_binary.cases) (auto simp: binary_ok_def HEADER_TYPE_defs)
  qed
qed

theorem delete_tlv_conservation_witness:
  "fields_dict fixed_header ''header_size'' = Some 44 \<and>
   list_all binary_ok (tlvs fixed_header) \<and>
   map pack (filter (\<lambda>t. get_tlvid t = 5) (tlvs fixed_header)) =
     map Inr [[5, 0, 8, 0, 0, 0, 0, 32, 128, 0, 4, 0]] \<and>
   delete_tlv 5 fixed_header =
     Inr (fixed_header
            \<lparr>tlvs := [TBFTLVMain True
                        (Some \<lparr>init_fn_offset = 44, protected_size = 12,
                               minimum_ram_size = 1024\<rparr>)],
              fields_dict := (fields_dict fixed_header)(''header_size'' \<mapsto> 32),
              modified := True\<rparr>)"
proof -
  have f: "fields_dict fixed_header ''header_size'' = Some 44"
    by (simp add: fixed_header_def)
  have ok: "list_all binary_ok (tlvs fixed_header)"
    by (simp add: fixed_header_def binary_ok_def HEADER_TYPE_defs)
  have pk: "map pack (filter (\<lambda>t. get_tlvid t = 5) (tlvs fixed_header)) =
              map Inr [[5, 0, 8, 0, 0, 0, 0, 32, 128, 0, 4, 0]]"
    by code_simp
  have r: "filter (\<lambda>t. get_tlvid t \<noteq> 5) (tlvs fixed_header) =
             [TBFTLVMain True
                (Some \<lparr>init_fn_offset = 32, protected_size = 0, minimum_ram_size = 1024\<rparr>)]"
    by (simp add: fixed_header_def)
  from delete_tlv_conservation
         [of fixed_header 44 5 "[[5, 0, 8, 0, 0, 0, 0, 32, 128, 0, 4, 0]]" 12
             "filter (\<lambda>t. get_tlvid t \<noteq> 5) (tlvs fixed_header)"]
       f ok pk
  have "delete_tlv 5 fixed_header =
          Inr (fixed_header
                 \<lparr>tlvs := map_first HEADER_TYPE_PROGRAM (grow_binary 12)
                           (map_first HEADER_TYPE_MAIN (grow_binary 12)
                              (filter (\<lambda>t. get_tlvid t \<noteq> 5) (tlvs fixed_header))),
                   fields_dict := (fields_dict fixed_header)(''header_size'' \<mapsto> 44 - 12),
                   modified := (modified fixed_header \<or>
                                [[5, 0, 8, 0, 0, 0, 0, 32, 128, 0, 4, 0 :: byte]] \<noteq> [])\<rparr>)"
    by simp
  then show ?thesis using f ok pk by (simp add: r HEADER_TYPE_defs)
qed

end
